theory Spec2Isabelle
  imports Main
begin

unbundle bit_operations_syntax

section \<open>The Finch licence-key issuer (scripts/issue\_license.py)\<close>

text \<open>
  The script signs a small JSON payload with an Ed25519 private key and prints the
  token \<open>FINCH-<base64url(payload)>.<base64url(signature)>\<close>.  The embedding follows
  the script function by function (\<open>load_private_key_from_1password\<close>,
  \<open>load_private_key_from_file\<close>, \<open>issue_key\<close>, \<open>main\<close>).  The standard-library
  operations the script calls (\<open>datetime.date\<close>, \<open>json.dumps\<close>, \<open>str.encode\<close>,
  \<open>base64.urlsafe_b64encode\<close>) are transcribed from CPython's library sources; the
  cryptography package, the file system, the \<open>op\<close> subprocess and the clock are
  parameters of the model.
\<close>

subsection \<open>Python values\<close>

text \<open>
  A Python \<open>str\<close> is a sequence of code points (each below \<open>0x110000\<close>; lone
  surrogates are possible values).  A \<open>bytes\<close> object is a list of 8-bit characters.
\<close>

type_synonym pystr = "nat list"
type_synonym bytes = "char list"

definition lit :: "string \<Rightarrow> pystr" where
  "lit s = map of_char s"

definition str_ok :: "pystr \<Rightarrow> bool" where
  "str_ok s = list_all (\<lambda>c. c < 0x110000) s"

text \<open>
  Exceptions.  \<open>RuntimeError\<close> carries the message the script gives it; \<open>OSError\<close>
  and \<open>CryptoError\<close> (any exception raised inside the cryptography package:
  \<open>ValueError\<close>, \<open>TypeError\<close>, \<open>UnsupportedAlgorithm\<close>) carry the text of
  \<open>str(e)\<close>.  The remaining ones are raised by the interpreter's own library, which
  chooses their text.
\<close>

datatype exn =
    ImportError
  | RuntimeError pystr
  | OSError pystr
  | CryptoError pystr
  | OverflowError
  | ValueError
  | UnicodeEncodeError

subsection \<open>datetime.date\<close>

text \<open>
  The proleptic Gregorian calendar of \<open>datetime\<close>: \<open>_is_leap\<close>, \<open>_days_before_year\<close>,
  \<open>_days_in_month\<close>, \<open>_days_before_month\<close>, \<open>_ymd2ord\<close> and \<open>_ord2ymd\<close>.  Python's
  \<open>//\<close> and \<open>%\<close> round towards minus infinity, as \<open>div\<close> and \<open>mod\<close> on \<open>int\<close> do.
\<close>

definition MINYEAR :: int where "MINYEAR = 1"
definition MAXYEAR :: int where "MAXYEAR = 9999"
definition MAXORDINAL :: int where "MAXORDINAL = 3652059"

definition DAYS_IN_MONTH :: "int list" where
  "DAYS_IN_MONTH = [-1, 31, 28, 31, 30, 31, 30, 31, 31, 30, 31, 30, 31]"

definition DAYS_BEFORE_MONTH :: "int list" where
  "DAYS_BEFORE_MONTH = [-1, 0, 31, 59, 90, 120, 151, 181, 212, 243, 273, 304, 334]"

definition is_leap :: "int \<Rightarrow> bool" where
  "is_leap y = (y mod 4 = 0 \<and> (y mod 100 \<noteq> 0 \<or> y mod 400 = 0))"

definition days_before_year :: "int \<Rightarrow> int" where
  "days_before_year yr = (let y = yr - 1 in y * 365 + y div 4 - y div 100 + y div 400)"

definition days_in_month :: "int \<Rightarrow> int \<Rightarrow> int" where
  "days_in_month y m = (if m = 2 \<and> is_leap y then 29 else DAYS_IN_MONTH ! nat m)"

definition days_before_month :: "int \<Rightarrow> int \<Rightarrow> int" where
  "days_before_month y m =
     DAYS_BEFORE_MONTH ! nat m + (if m > 2 \<and> is_leap y then 1 else 0)"

definition ymd2ord :: "int \<Rightarrow> int \<Rightarrow> int \<Rightarrow> int" where
  "ymd2ord y m d = days_before_year y + days_before_month y m + d"

text \<open>
  The last step of \<open>_ord2ymd\<close>: from the offset \<open>n\<close> within the year, the month by an
  estimate that is exact or one too large, and the day.
\<close>

definition month_day :: "bool \<Rightarrow> int \<Rightarrow> int \<times> int" where
  "month_day leapyear n =
     (let mo = (n + 50) div 32;
          preceding = DAYS_BEFORE_MONTH ! nat mo + (if mo > 2 \<and> leapyear then 1 else 0)
      in if preceding > n
         then (let mo = mo - 1;
                   preceding = preceding
                     - (DAYS_IN_MONTH ! nat mo + (if mo = 2 \<and> leapyear then 1 else 0))
               in (mo, n - preceding + 1))
         else (mo, n - preceding + 1))"

definition ord2ymd :: "int \<Rightarrow> int \<times> int \<times> int" where
  "ord2ymd n0 =
    (let n = n0 - 1;
         n400 = n div 146097; n = n mod 146097;
         yr = n400 * 400 + 1;
         n100 = n div 36524; n = n mod 36524;
         n4 = n div 1461; n = n mod 1461;
         n1 = n div 365; n = n mod 365;
         yr = yr + (n100 * 100 + n4 * 4 + n1)
     in if n1 = 4 \<or> n100 = 4 then (yr - 1, 12, 31)
        else (yr, month_day (n1 = 3 \<and> (n4 \<noteq> 24 \<or> n100 = 3)) n))"

record date =
  year :: int
  month :: int
  day :: int

definition date_valid :: "date \<Rightarrow> bool" where
  "date_valid d = (MINYEAR \<le> year d \<and> year d \<le> MAXYEAR \<and> 1 \<le> month d \<and> month d \<le> 12
     \<and> 1 \<le> day d \<and> day d \<le> days_in_month (year d) (month d))"

text \<open>The constructor \<open>date(y, m, d)\<close> with \<open>_check_date_fields\<close>.\<close>

definition date_new :: "int \<Rightarrow> int \<Rightarrow> int \<Rightarrow> exn + date" where
  "date_new y m d =
     (if \<not> (MINYEAR \<le> y \<and> y \<le> MAXYEAR) then Inl ValueError
      else if \<not> (1 \<le> m \<and> m \<le> 12) then Inl ValueError
      else if \<not> (1 \<le> d \<and> d \<le> days_in_month y m) then Inl ValueError
      else Inr \<lparr>year = y, month = m, day = d\<rparr>)"

definition toordinal :: "date \<Rightarrow> int" where
  "toordinal d = ymd2ord (year d) (month d) (day d)"

definition fromordinal :: "int \<Rightarrow> exn + date" where
  "fromordinal n = (case ord2ymd n of (y, m, d) \<Rightarrow> date_new y m d)"

text \<open>
  \<open>timedelta(days=n)\<close>: the constructor refuses more than 999999999 days either way.
  \<open>date + timedelta\<close> (\<open>date.__add__\<close>) refuses a result outside
  \<open>0001-01-01 .. 9999-12-31\<close>.
\<close>

definition timedelta :: "int \<Rightarrow> exn + int" where
  "timedelta days = (if \<bar>days\<bar> > 999999999 then Inl OverflowError else Inr days)"

definition date_add :: "date \<Rightarrow> int \<Rightarrow> exn + date" where
  "date_add d days =
     (let od = toordinal d + days
      in if 0 < od \<and> od \<le> MAXORDINAL then fromordinal od else Inl OverflowError)"

text \<open>
  \<open>date.isoformat\<close> is \<open>"%04d-%02d-%02d" % (year, month, day)\<close>.  \<open>fmt_d w\<close> is the
  conversion \<open>%0wd\<close>: decimal digits, a minus sign for a negative number, zeros up to
  the width.
\<close>

fun dec_digits :: "nat \<Rightarrow> pystr" where
  "dec_digits n = (if n < 10 then [48 + n] else dec_digits (n div 10) @ [48 + n mod 10])"

declare dec_digits.simps [simp del]

definition zfill :: "nat \<Rightarrow> pystr \<Rightarrow> pystr" where
  "zfill w s = replicate (w - length s) 48 @ s"

definition fmt_d :: "nat \<Rightarrow> int \<Rightarrow> pystr" where
  "fmt_d w i = (if i < 0 then 45 # zfill (w - 1) (dec_digits (nat (- i)))
                else zfill w (dec_digits (nat i)))"

definition isoformat :: "date \<Rightarrow> pystr" where
  "isoformat d = fmt_d 4 (year d) @ [45] @ fmt_d 2 (month d) @ [45] @ fmt_d 2 (day d)"

subsection \<open>json.dumps\<close>

text \<open>
  \<open>json.dumps(obj, separators=(",", ":"))\<close> with the default \<open>ensure_ascii=True\<close>
  encodes every string with \<open>encode_basestring_ascii\<close>: the regular expression
  \<open>ESCAPE_ASCII = ([\\"]|[^\ -~])\<close> selects the characters to replace, \<open>ESCAPE_DCT\<close>
  holds the short escapes and the control characters, and everything else becomes
  \<open>\uXXXX\<close> (\<open>'\\u{0:04x}'.format(n)\<close>), a surrogate pair above the basic plane.
\<close>

fun hex_digits :: "nat \<Rightarrow> pystr" where
  "hex_digits n =
     (let d = n mod 16; c = (if d < 10 then 48 + d else 87 + d)
      in if n < 16 then [c] else hex_digits (n div 16) @ [c])"

declare hex_digits.simps [simp del]

definition fmt_04x :: "nat \<Rightarrow> pystr" where
  "fmt_04x n = zfill 4 (hex_digits n)"

definition ESCAPE_DCT :: "nat \<Rightarrow> pystr option" where
  "ESCAPE_DCT c =
     (if c = 92 then Some [92, 92]
      else if c = 34 then Some [92, 34]
      else if c = 8 then Some [92, 98]
      else if c = 12 then Some [92, 102]
      else if c = 10 then Some [92, 110]
      else if c = 13 then Some [92, 114]
      else if c = 9 then Some [92, 116]
      else if c < 0x20 then Some ([92, 117] @ fmt_04x c)
      else None)"

definition ESCAPE_ASCII :: "nat \<Rightarrow> bool" where
  "ESCAPE_ASCII c = (c = 92 \<or> c = 34 \<or> \<not> (32 \<le> c \<and> c \<le> 126))"

definition replace :: "nat \<Rightarrow> pystr" where
  "replace c =
     (case ESCAPE_DCT c of
        Some r \<Rightarrow> r
      | None \<Rightarrow>
          if c < 0x10000 then [92, 117] @ fmt_04x c
          else
            let n = c - 0x10000;
                s1 = 0xd800 OR (drop_bit 10 n AND 0x3ff);
                s2 = 0xdc00 OR (n AND 0x3ff)
            in [92, 117] @ fmt_04x s1 @ [92, 117] @ fmt_04x s2)"

definition escape_sub :: "pystr \<Rightarrow> pystr" where
  "escape_sub s = concat (map (\<lambda>c. if ESCAPE_ASCII c then replace c else [c]) s)"

definition py_encode_basestring_ascii :: "pystr \<Rightarrow> pystr" where
  "py_encode_basestring_ascii s = [34] @ escape_sub s @ [34]"

text \<open>
  A \<open>dict\<close> whose keys and values are strings, in insertion order, is a list of
  pairs; the script's dictionary literal has five distinct keys.  \<open>json_dumps\<close> is
  the encoder on such a dictionary, with the two separators of the keyword argument.
\<close>

fun py_join :: "pystr \<Rightarrow> pystr list \<Rightarrow> pystr" where
  "py_join sep [] = []"
| "py_join sep [x] = x"
| "py_join sep (x # y # ys) = x @ sep @ py_join sep (y # ys)"

definition json_dumps :: "pystr \<times> pystr \<Rightarrow> (pystr \<times> pystr) list \<Rightarrow> pystr" where
  "json_dumps separators dct =
     (case separators of (item_separator, key_separator) \<Rightarrow>
        if dct = [] then lit ''{}''
        else [123] @ py_join item_separator
               (map (\<lambda>(k, v). py_encode_basestring_ascii k @ key_separator
                               @ py_encode_basestring_ascii v) dct) @ [125])"

subsection \<open>str.encode\<close>

text \<open>
  \<open>s.encode()\<close> is UTF-8 with the \<open>strict\<close> error handler: a surrogate code point
  raises \<open>UnicodeEncodeError\<close>.
\<close>

definition utf8_char :: "nat \<Rightarrow> exn + nat list" where
  "utf8_char c =
     (if c < 0x80 then Inr [c]
      else if c < 0x800 then Inr [0xC0 + c div 64, 0x80 + c mod 64]
      else if 0xD800 \<le> c \<and> c \<le> 0xDFFF then Inl UnicodeEncodeError
      else if c < 0x10000 then Inr [0xE0 + c div 4096, 0x80 + c div 64 mod 64, 0x80 + c mod 64]
      else Inr [0xF0 + c div 262144, 0x80 + c div 4096 mod 64, 0x80 + c div 64 mod 64,
                0x80 + c mod 64])"

fun py_encode :: "pystr \<Rightarrow> exn + bytes" where
  "py_encode [] = Inr []"
| "py_encode (c # cs) =
     (case utf8_char c of
        Inl e \<Rightarrow> Inl e
      | Inr bs \<Rightarrow> (case py_encode cs of
                     Inl e \<Rightarrow> Inl e
                   | Inr rest \<Rightarrow> Inr (map char_of bs @ rest)))"

subsection \<open>base64.urlsafe\_b64encode\<close>

text \<open>
  \<open>binascii.b2a_base64(s, newline=False)\<close>: three bytes give four characters of the
  table, a last group of one or two bytes is padded with \<open>=\<close>.
  \<open>urlsafe_b64encode\<close> then translates \<open>+\<close> to \<open>-\<close> and \<open>/\<close> to \<open>_\<close>.
\<close>

definition table_b2a_base64 :: string where
  "table_b2a_base64 = ''ABCDEFGHIJKLMNOPQRSTUVWXYZabcdefghijklmnopqrstuvwxyz0123456789+/''"

fun b2a_base64 :: "bytes \<Rightarrow> bytes" where
  "b2a_base64 (a # b # c # rest) =
     (let x = of_char a; y = of_char b; z = (of_char c :: nat)
      in [table_b2a_base64 ! (x div 4),
          table_b2a_base64 ! (x mod 4 * 16 + y div 16),
          table_b2a_base64 ! (y mod 16 * 4 + z div 64),
          table_b2a_base64 ! (z mod 64)]) @ b2a_base64 rest"
| "b2a_base64 [a, b] =
     (let x = of_char a; y = (of_char b :: nat)
      in [table_b2a_base64 ! (x div 4),
          table_b2a_base64 ! (x mod 4 * 16 + y div 16),
          table_b2a_base64 ! (y mod 16 * 4),
          CHR ''=''])"
| "b2a_base64 [a] =
     (let x = (of_char a :: nat)
      in [table_b2a_base64 ! (x div 4),
          table_b2a_base64 ! (x mod 4 * 16),
          CHR ''='', CHR ''=''])"
| "b2a_base64 [] = []"

definition urlsafe_encode_translation :: "char \<Rightarrow> char" where
  "urlsafe_encode_translation c =
     (if c = CHR ''+'' then CHR ''-'' else if c = CHR ''/'' then CHR ''_'' else c)"

definition urlsafe_b64encode :: "bytes \<Rightarrow> bytes" where
  "urlsafe_b64encode s = map urlsafe_encode_translation (b2a_base64 s)"

text \<open>\<open>bytes.rstrip(chars)\<close> removes every trailing byte that occurs in \<open>chars\<close>.\<close>

definition rstrip :: "bytes \<Rightarrow> bytes \<Rightarrow> bytes" where
  "rstrip chars s = rev (dropWhile (\<lambda>c. c \<in> set chars) (rev s))"

text \<open>
  The local function \<open>b64url\<close> of \<open>issue_key\<close>.  Its last step \<open>.decode()\<close> reads the
  base64 characters, which are ASCII, as a string: each byte is its own code point.
\<close>

definition b64url :: "bytes \<Rightarrow> pystr" where
  "b64url data = map of_char (rstrip ''='' (urlsafe_b64encode data))"

subsection \<open>The cryptography package\<close>

text \<open>
  The package is not part of the script.  What the script uses of it is
  \<open>load_pem_private_key(data, password=None)\<close>, which returns a key object or raises,
  and the method \<open>sign(data)\<close> of that object, which returns the signature or raises
  (the key of another algorithm raises \<open>TypeError\<close> on this call).  A failure is the
  text of the exception.  The package is \<open>None\<close> when it is not installed.
\<close>

datatype private_key = PrivateKey (sign: "bytes \<Rightarrow> pystr + bytes")

type_synonym crypto = "bytes \<Rightarrow> pystr + private_key"

subsection \<open>issue\_key\<close>

text \<open>
  \<open>issue_key(email, name, years, private_key_pem)\<close>.  The two further arguments are
  what the function reads from its environment: the cryptography package (the two
  \<open>import\<close> statements) and the value of \<open>date.today()\<close>.
\<close>

definition issue_key ::
  "crypto option \<Rightarrow> date \<Rightarrow> pystr \<Rightarrow> pystr \<Rightarrow> int \<Rightarrow> bytes \<Rightarrow> exn + pystr" where
  "issue_key package today email name years private_key_pem =
     (case package of
        None \<Rightarrow> Inl ImportError
      | Some load_pem_private_key \<Rightarrow>
     (case load_pem_private_key private_key_pem of
        Inl msg \<Rightarrow> Inl (CryptoError msg)
      | Inr private_key \<Rightarrow>
     (case timedelta (365 * years) of
        Inl e \<Rightarrow> Inl e
      | Inr delta \<Rightarrow>
     (case date_add today delta of
        Inl e \<Rightarrow> Inl e
      | Inr expiry \<Rightarrow>
     (case py_encode (json_dumps (lit '','', lit '':'')
              [(lit ''sub'', email),
               (lit ''name'', name),
               (lit ''tier'', lit ''commercial''),
               (lit ''iss'', isoformat today),
               (lit ''exp'', isoformat expiry)]) of
        Inl e \<Rightarrow> Inl e
      | Inr payload \<Rightarrow>
     (case sign private_key payload of
        Inl msg \<Rightarrow> Inl (CryptoError msg)
      | Inr signature \<Rightarrow>
          Inr (lit ''FINCH-'' @ b64url payload @ lit ''.'' @ b64url signature)))))))"

subsection \<open>The key sources and the command line\<close>

text \<open>
  The environment of one run: the file system (\<open>os.path.expanduser\<close>,
  \<open>os.path.exists\<close>, and \<open>open(path, "rb").read()\<close>, which can raise \<open>OSError\<close> on a
  path that exists), the outcome of the \<open>op\<close> subprocess, the cryptography package,
  the successive values of \<open>date.today()\<close>, and the interpreter's texts: \<open>str(e)\<close> for
  an exception of its own library, and what it writes for an uncaught exception.
\<close>

datatype op_result =
    Completed pystr
  | FileNotFoundError
  | CalledProcessError pystr
  | OtherError exn

record world =
  expanduser :: "pystr \<Rightarrow> pystr"
  path_exists :: "pystr \<Rightarrow> bool"
  open_read :: "pystr \<Rightarrow> exn + bytes"
  subprocess_run :: op_result
  cryptography :: "crypto option"
  date_today :: "nat \<Rightarrow> date"
  exn_text :: "exn \<Rightarrow> pystr"
  traceback :: "exn \<Rightarrow> pystr"

text \<open>\<open>str.strip()\<close> removes the white space of \<open>str.isspace\<close> at both ends.\<close>

definition isspace :: "nat \<Rightarrow> bool" where
  "isspace c = ((9 \<le> c \<and> c \<le> 13) \<or> (28 \<le> c \<and> c \<le> 32) \<or> c = 0x85 \<or> c = 0xA0
     \<or> c = 0x1680 \<or> (0x2000 \<le> c \<and> c \<le> 0x200A) \<or> c = 0x2028 \<or> c = 0x2029
     \<or> c = 0x202F \<or> c = 0x205F \<or> c = 0x3000)"

definition strip :: "pystr \<Rightarrow> pystr" where
  "strip s = rev (dropWhile isspace (rev (dropWhile isspace s)))"

definition load_private_key_from_1password :: "world \<Rightarrow> exn + bytes" where
  "load_private_key_from_1password w =
     (case subprocess_run w of
        Completed out \<Rightarrow>
          (let pem = strip out
           in if pem = [] then Inl (RuntimeError (lit ''op returned empty output''))
              else py_encode pem)
      | FileNotFoundError \<Rightarrow>
          Inl (RuntimeError
            (lit ''1Password CLI (op) not found. Install with: brew install 1password-cli''
             @ [10] @ lit ''Or use --key ~/.finch/license_private.pem''))
      | CalledProcessError err \<Rightarrow>
          Inl (RuntimeError
            (lit ''op failed (are you signed in? run: op signin):'' @ [10] @ strip err))
      | OtherError e \<Rightarrow> Inl e)"

definition load_private_key_from_file :: "world \<Rightarrow> pystr \<Rightarrow> exn + bytes" where
  "load_private_key_from_file w path0 =
     (let path = expanduser w path0
      in if \<not> path_exists w path then Inl (RuntimeError (lit ''Key file not found: '' @ path))
         else open_read w path)"

text \<open>
  The arguments as \<open>argparse\<close> delivers them: \<open>--years\<close> is any integer, \<open>--key\<close> is
  absent (\<open>None\<close>) or a string.  What the process leaves behind: for each of its two
  output streams the text handed to \<open>print\<close>, and its exit status.  The stream then
  encodes that text, standard error with the error handler \<open>backslashreplace\<close>: ASCII
  text is written as it is, a code point the encoding cannot represent (a path with an
  undecodable byte holds such code points) is written as an escape.
\<close>

record args =
  arg_email :: pystr
  arg_name :: pystr
  arg_years :: int
  arg_key :: "pystr option"

record outcome =
  stdout :: pystr
  stderr :: pystr
  exit_status :: nat

definition str_exn :: "world \<Rightarrow> exn \<Rightarrow> pystr" where
  "str_exn w e =
     (case e of RuntimeError m \<Rightarrow> m | OSError m \<Rightarrow> m | CryptoError m \<Rightarrow> m | _ \<Rightarrow> exn_text w e)"

text \<open>An exception that no handler catches: the traceback on standard error, status 1.\<close>

definition uncaught :: "world \<Rightarrow> exn \<Rightarrow> outcome" where
  "uncaught w e = \<lparr>stdout = [], stderr = traceback w e, exit_status = 1\<rparr>"

text \<open>
  The first \<open>try\<close> block of \<open>main\<close>: \<open>if args.key:\<close> is false for \<open>None\<close> and for the
  empty string.  The result is the key bytes and the \<open>source\<close> shown later.
\<close>

definition load_key :: "world \<Rightarrow> args \<Rightarrow> exn + (bytes \<times> pystr)" where
  "load_key w a =
     (case arg_key a of
        Some k \<Rightarrow>
          if k \<noteq> [] then
            (case load_private_key_from_file w k of Inl e \<Rightarrow> Inl e | Inr pem \<Rightarrow> Inr (pem, k))
          else
            (case load_private_key_from_1password w of
               Inl e \<Rightarrow> Inl e | Inr pem \<Rightarrow> Inr (pem, lit ''1Password''))
      | None \<Rightarrow>
          (case load_private_key_from_1password w of
             Inl e \<Rightarrow> Inl e | Inr pem \<Rightarrow> Inr (pem, lit ''1Password'')))"

text \<open>
  \<open>main\<close>.  The first handler catches \<open>RuntimeError\<close> only; the second catches
  \<open>ImportError\<close>, then every \<open>Exception\<close>.  The expiry line of the report calls
  \<open>date.today()\<close> a second time, outside every handler.
\<close>

definition main :: "world \<Rightarrow> args \<Rightarrow> outcome" where
  "main w a =
     (case load_key w a of
        Inl (RuntimeError m) \<Rightarrow>
          \<lparr>stdout = [], stderr = lit ''error: '' @ m @ [10], exit_status = 1\<rparr>
      | Inl e \<Rightarrow> uncaught w e
      | Inr (pem, source) \<Rightarrow>
     (case issue_key (cryptography w) (date_today w 0) (arg_email a) (arg_name a)
             (arg_years a) pem of
        Inl ImportError \<Rightarrow>
          \<lparr>stdout = [],
           stderr = lit ''error: cryptography package not installed. Run: pip install cryptography''
                    @ [10],
           exit_status = 1\<rparr>
      | Inl e \<Rightarrow>
          \<lparr>stdout = [],
           stderr = lit ''error: failed to sign key: '' @ str_exn w e @ [10],
           exit_status = 1\<rparr>
      | Inr key \<Rightarrow>
     (case timedelta (365 * arg_years a) of
        Inl e \<Rightarrow> uncaught w e
      | Inr delta \<Rightarrow>
     (case date_add (date_today w 1) delta of
        Inl e \<Rightarrow> uncaught w e
      | Inr expiry \<Rightarrow>
          \<lparr>stdout = key @ [10],
           stderr = [10] @ lit ''# Licensee:  '' @ arg_name a @ lit '' <'' @ arg_email a
                    @ lit ''>'' @ [10]
                    @ lit ''# Expires:   '' @ isoformat expiry @ [10]
                    @ lit ''# Key from:  '' @ source @ [10],
           exit_status = 0\<rparr>))))"

subsection \<open>The token format in the words of the specification\<close>

text \<open>
  The specification describes the token as \<open>FINCH-\<close>, the unpadded base64url
  encoding of the payload, a dot, and the unpadded base64url encoding of the
  signature; the payload is the compact JSON object of the five fields.  These
  definitions say that directly (RFC 4648, section 5, without padding), independently
  of the library calls above.
\<close>

fun sextets :: "bytes \<Rightarrow> nat list" where
  "sextets (a # b # c # rest) =
     (let x = of_char a; y = of_char b; z = (of_char c :: nat)
      in [x div 4, x mod 4 * 16 + y div 16, y mod 16 * 4 + z div 64, z mod 64])
     @ sextets rest"
| "sextets [a, b] =
     (let x = of_char a; y = (of_char b :: nat)
      in [x div 4, x mod 4 * 16 + y div 16, y mod 16 * 4])"
| "sextets [a] = (let x = (of_char a :: nat) in [x div 4, x mod 4 * 16])"
| "sextets [] = []"

definition base64url_char :: "nat \<Rightarrow> nat" where
  "base64url_char i =
     (if i < 26 then 65 + i else if i < 52 then 71 + i else if i < 62 then i - 4
      else if i = 62 then 45 else 95)"

definition base64url_unpadded :: "bytes \<Rightarrow> pystr" where
  "base64url_unpadded bs = map base64url_char (sextets bs)"

definition json_string :: "pystr \<Rightarrow> pystr" where
  "json_string s = lit ''\"'' @ escape_sub s @ lit ''\"''"

definition spec_payload :: "pystr \<Rightarrow> pystr \<Rightarrow> pystr \<Rightarrow> pystr \<Rightarrow> pystr" where
  "spec_payload sub nm iss ex =
     lit ''{\"sub\":'' @ json_string sub
     @ lit '',\"name\":'' @ json_string nm
     @ lit '',\"tier\":\"commercial\"''
     @ lit '',\"iss\":'' @ json_string iss
     @ lit '',\"exp\":'' @ json_string ex
     @ lit ''}''"

text \<open>
  The escape sequence \<open>\uXXXX\<close> of a 16-bit value, as JSON defines it: a backslash
  (code 92), the letter \<open>u\<close> (code 117) and the four hexadecimal digits of the value,
  most significant first, here in lower case as \<open>json.dumps\<close> writes them.
\<close>

definition hex4 :: "nat \<Rightarrow> pystr" where
  "hex4 n = map (\<lambda>i. lit ''0123456789abcdef'' ! (n div 16 ^ i mod 16)) [3, 2, 1, 0]"

definition uXXXX :: "nat \<Rightarrow> pystr" where
  "uXXXX n = [92, 117] @ hex4 n"

subsection \<open>Reading a token back\<close>

text \<open>
  The relying party's side is not part of the script.  To state what a token
  contains, these are the standard inverse operations: splitting the token at the
  prefix and the dot, base64url decoding without padding, JSON parsing as
  \<open>json.loads\<close> does it (\<open>py_scanstring\<close> for strings, with its joining of a
  \<open>\uD800-\uDBFF\<close> escape and a following \<open>\uDC00-\uDFFF\<close> escape into one character),
  and \<open>date.fromisoformat\<close> on the format \<open>YYYY-MM-DD\<close>.  The JSON reader handles
  objects whose values are strings and answers \<open>None\<close> on anything else.
\<close>

definition token_parts :: "pystr \<Rightarrow> (pystr \<times> pystr) option" where
  "token_parts tok =
     (if take 6 tok = lit ''FINCH-'' \<and> 46 \<in> set (drop 6 tok)
      then Some (takeWhile (\<lambda>c. c \<noteq> 46) (drop 6 tok),
                 tl (dropWhile (\<lambda>c. c \<noteq> 46) (drop 6 tok)))
      else None)"

definition base64url_value :: "nat \<Rightarrow> nat option" where
  "base64url_value c =
     (if 65 \<le> c \<and> c \<le> 90 then Some (c - 65)
      else if 97 \<le> c \<and> c \<le> 122 then Some (c - 71)
      else if 48 \<le> c \<and> c \<le> 57 then Some (c + 4)
      else if c = 45 then Some 62
      else if c = 95 then Some 63
      else None)"

fun unsextets :: "nat list \<Rightarrow> bytes option" where
  "unsextets (a # b # c # d # rest) =
     (case unsextets rest of
        None \<Rightarrow> None
      | Some bs \<Rightarrow>
          Some ([char_of (a * 4 + b div 16), char_of (b mod 16 * 16 + c div 4),
                 char_of (c mod 4 * 64 + d)] @ bs))"
| "unsextets [a, b, c] = Some [char_of (a * 4 + b div 16), char_of (b mod 16 * 16 + c div 4)]"
| "unsextets [a, b] = Some [char_of (a * 4 + b div 16)]"
| "unsextets [a] = None"
| "unsextets [] = Some []"

definition base64url_decode :: "pystr \<Rightarrow> bytes option" where
  "base64url_decode s =
     (case those (map base64url_value s) of None \<Rightarrow> None | Some vs \<Rightarrow> unsextets vs)"

definition token_payload :: "pystr \<Rightarrow> bytes option" where
  "token_payload tok =
     (case token_parts tok of None \<Rightarrow> None | Some (p, s) \<Rightarrow> base64url_decode p)"

definition token_signature :: "pystr \<Rightarrow> bytes option" where
  "token_signature tok =
     (case token_parts tok of None \<Rightarrow> None | Some (p, s) \<Rightarrow> base64url_decode s)"

definition hex_value :: "nat \<Rightarrow> nat option" where
  "hex_value c =
     (if 48 \<le> c \<and> c \<le> 57 then Some (c - 48)
      else if 97 \<le> c \<and> c \<le> 102 then Some (c - 87)
      else if 65 \<le> c \<and> c \<le> 70 then Some (c - 55)
      else None)"

definition decode_uXXXX :: "pystr \<Rightarrow> nat option" where
  "decode_uXXXX s =
     (case map hex_value (take 4 s) of
        [Some a, Some b, Some c, Some d] \<Rightarrow> Some (((a * 16 + b) * 16 + c) * 16 + d)
      | _ \<Rightarrow> None)"

definition BACKSLASH :: "nat \<Rightarrow> nat option" where
  "BACKSLASH c =
     (if c = 34 \<or> c = 92 \<or> c = 47 then Some c
      else if c = 98 then Some 8
      else if c = 102 then Some 12
      else if c = 110 then Some 10
      else if c = 114 then Some 13
      else if c = 116 then Some 9
      else None)"

definition is_high :: "nat \<Rightarrow> bool" where
  "is_high u = (0xd800 \<le> u \<and> u \<le> 0xdbff)"

definition is_low :: "nat \<Rightarrow> bool" where
  "is_low u = (0xdc00 \<le> u \<and> u \<le> 0xdfff)"

text \<open>
  \<open>scanstring s\<close> reads a string whose opening quote has been consumed and returns
  its characters and the input after the closing quote.
\<close>

function scanstring :: "pystr \<Rightarrow> (pystr \<times> pystr) option" where
  "scanstring [] = None"
| "scanstring (c # cs) =
     (if c = 34 then Some ([], cs)
      else if c = 92 then
        (case cs of
           [] \<Rightarrow> None
         | esc # r \<Rightarrow>
             if esc \<noteq> 117 then
               (case BACKSLASH esc of
                  None \<Rightarrow> None
                | Some ch \<Rightarrow>
                    (case scanstring r of
                       None \<Rightarrow> None
                     | Some (str, rest) \<Rightarrow> Some (ch # str, rest)))
             else
               (case decode_uXXXX r of
                  None \<Rightarrow> None
                | Some uni \<Rightarrow>
                    if is_high uni \<and> take 2 (drop 4 r) = [92, 117] then
                      (case decode_uXXXX (drop 6 r) of
                         None \<Rightarrow> None
                       | Some uni2 \<Rightarrow>
                           if is_low uni2 then
                             (case scanstring (drop 10 r) of
                                None \<Rightarrow> None
                              | Some (str, rest) \<Rightarrow>
                                  Some ((0x10000 + (push_bit 10 (uni - 0xd800) OR (uni2 - 0xdc00)))
                                        # str, rest))
                           else
                             (case scanstring (drop 4 r) of
                                None \<Rightarrow> None
                              | Some (str, rest) \<Rightarrow> Some (uni # str, rest)))
                    else
                      (case scanstring (drop 4 r) of
                         None \<Rightarrow> None
                       | Some (str, rest) \<Rightarrow> Some (uni # str, rest))))
      else if c < 32 then None
      else
        (case scanstring cs of
           None \<Rightarrow> None
         | Some (str, rest) \<Rightarrow> Some (c # str, rest)))"
  by pat_completeness auto
termination
  by (relation "measure length") auto

lemma scanstring_length:
  "scanstring s = Some (str, rest) \<Longrightarrow> length rest < length s"
proof (induction "length s" arbitrary: s str rest rule: less_induct)
  case less
  show ?case
  proof (cases s)
    case Nil
    with less.prems show ?thesis by simp
  next
    case (Cons c cs)
    have R: "length b < length s" if "scanstring t = Some (a, b)" "length t \<le> length cs" for t a b
    proof -
      have "length t < length s" using that Cons by simp
      then have "length b < length t" using less.hyps that by blast
      then show ?thesis using that Cons by simp
    qed
    have D: "length (drop k cs) \<le> length cs" "length (drop k (tl cs)) \<le> length cs" for k
      by simp_all
    show ?thesis
    proof (cases "c = 34")
      case True
      with less.prems Cons show ?thesis by simp
    next
      case False
      then show ?thesis
        using less.prems Cons
        by (auto split: if_splits list.splits option.splits prod.splits dest!: R)
    qed
  qed
qed

text \<open>
  The object reader (\<open>JSONObject\<close>): pairs of a string key and a string value,
  separated by commas, with optional white space between the tokens.  \<open>members s\<close>
  starts at the opening quote of a key.
\<close>

definition skip_ws :: "pystr \<Rightarrow> pystr" where
  "skip_ws s = dropWhile (\<lambda>c. c = 32 \<or> c = 9 \<or> c = 10 \<or> c = 13) s"

lemma length_skip_ws: "length (skip_ws s) \<le> length s"
  by (simp add: skip_ws_def length_dropWhile_le)

function members :: "pystr \<Rightarrow> ((pystr \<times> pystr) list \<times> pystr) option" where
  "members s =
     (case s of
        [] \<Rightarrow> None
      | q # s0 \<Rightarrow>
          if q \<noteq> 34 then None
          else
     (case scanstring s0 of
        None \<Rightarrow> None
      | Some (k, s1) \<Rightarrow>
     (case skip_ws s1 of
        [] \<Rightarrow> None
      | colon # s2 \<Rightarrow>
          if colon \<noteq> 58 then None
          else
     (case skip_ws s2 of
        [] \<Rightarrow> None
      | q2 # s3 \<Rightarrow>
          if q2 \<noteq> 34 then None
          else
     (case scanstring s3 of
        None \<Rightarrow> None
      | Some (v, s4) \<Rightarrow>
     (case skip_ws s4 of
        [] \<Rightarrow> None
      | nextchar # s5 \<Rightarrow>
          if nextchar = 125 then Some ([(k, v)], s5)
          else if nextchar = 44 then
            (case members (skip_ws s5) of
               None \<Rightarrow> None
             | Some (pairs, s6) \<Rightarrow> Some ((k, v) # pairs, s6))
          else None))))))"
  by pat_completeness auto
termination
proof (relation "measure length", goal_cases)
  case 1
  show ?case by simp
next
  case (2 s q s0 k_s1 k s1 colon s2 q2 s3 v_s4 v s4 nextchar s5)
  have "length s1 < length s0" using 2 scanstring_length [of s0 k s1] by simp
  moreover have "length s2 < length s1"
    using 2 length_skip_ws [of s1] by simp
  moreover have "length s3 < length s2"
    using 2 length_skip_ws [of s2] by simp
  moreover have "length s4 < length s3" using 2 scanstring_length [of s3 v s4] by simp
  moreover have "length s5 < length s4"
    using 2 length_skip_ws [of s4] by simp
  ultimately show ?case using 2 length_skip_ws [of s5] by simp
qed

definition json_object :: "pystr \<Rightarrow> (pystr \<times> pystr) list option" where
  "json_object s =
     (case skip_ws s of
        [] \<Rightarrow> None
      | brace # s1 \<Rightarrow>
          if brace \<noteq> 123 then None
          else
            (case skip_ws s1 of
               [] \<Rightarrow> None
             | c # s2 \<Rightarrow>
                 if c = 125 then (if skip_ws s2 = [] then Some [] else None)
                 else
                   (case members (c # s2) of
                      None \<Rightarrow> None
                    | Some (pairs, s3) \<Rightarrow> if skip_ws s3 = [] then Some pairs else None)))"

text \<open>
  \<open>json.loads\<close> on bytes decodes them as UTF-8 first.  This reader takes ASCII
  bytes, each its own code point, and answers \<open>None\<close> on any other byte.
\<close>

definition json_loads :: "bytes \<Rightarrow> (pystr \<times> pystr) list option" where
  "json_loads data =
     (if list_all (\<lambda>b. (of_char b :: nat) < 128) data then json_object (map of_char data)
      else None)"

definition digit_value :: "nat \<Rightarrow> nat option" where
  "digit_value c = (if 48 \<le> c \<and> c \<le> 57 then Some (c - 48) else None)"

definition dec_value :: "pystr \<Rightarrow> nat option" where
  "dec_value s =
     (case those (map digit_value s) of
        None \<Rightarrow> None
      | Some ds \<Rightarrow> Some (foldl (\<lambda>a d. 10 * a + d) 0 ds))"

definition date_fromisoformat :: "pystr \<Rightarrow> date option" where
  "date_fromisoformat s =
     (if length s = 10 \<and> s ! 4 = 45 \<and> s ! 7 = 45 then
        (case dec_value (take 4 s) of
           None \<Rightarrow> None
         | Some y \<Rightarrow>
        (case dec_value (take 2 (drop 5 s)) of
           None \<Rightarrow> None
         | Some m \<Rightarrow>
        (case dec_value (drop 8 s) of
           None \<Rightarrow> None
         | Some d \<Rightarrow>
        (case date_new (int y) (int m) (int d) of
           Inl e \<Rightarrow> None
         | Inr dt \<Rightarrow> Some dt))))
      else None)"

text \<open>The fields of the payload of a token, and one field of it.\<close>

definition token_claims :: "pystr \<Rightarrow> (pystr \<times> pystr) list option" where
  "token_claims tok = (case token_payload tok of None \<Rightarrow> None | Some p \<Rightarrow> json_loads p)"

definition token_field :: "pystr \<Rightarrow> string \<Rightarrow> pystr option" where
  "token_field tok k =
     (case token_claims tok of None \<Rightarrow> None | Some pairs \<Rightarrow> map_of (rev pairs) (lit k))"

definition token_date :: "pystr \<Rightarrow> string \<Rightarrow> date option" where
  "token_date tok k =
     (case token_field tok k of None \<Rightarrow> None | Some s \<Rightarrow> date_fromisoformat s)"

subsection \<open>Notions used in the statements and proofs\<close>

text \<open>
  A key is usable when its \<open>sign\<close> method returns a signature for every message, as
  the method of an Ed25519 key does.  \<open>payload_bytes\<close> is the payload of the
  specification as bytes (the JSON text is ASCII, each character one byte).
\<close>

definition signs :: "private_key \<Rightarrow> bool" where
  "signs k = (\<forall>m. \<exists>s. sign k m = Inr s)"

definition payload_bytes :: "pystr \<Rightarrow> pystr \<Rightarrow> date \<Rightarrow> date \<Rightarrow> bytes" where
  "payload_bytes em nm iss ex = map char_of (spec_payload em nm (isoformat iss) (isoformat ex))"

text \<open>
  What \<open>scanstring\<close> makes of an escaped string: the string itself, except that a
  \<open>\uD800-\uDBFF\<close> code point directly followed by a \<open>\uDC00-\uDFFF\<close> code point comes
  back as the one character the pair encodes.
\<close>

fun merge_surrogates :: "pystr \<Rightarrow> pystr" where
  "merge_surrogates (a # b # rest) =
     (if is_high a \<and> is_low b
      then (0x10000 + ((a - 0xd800) * 1024 + (b - 0xdc00))) # merge_surrogates rest
      else a # merge_surrogates (b # rest))"
| "merge_surrogates [a] = [a]"
| "merge_surrogates [] = []"

fun no_surrogate_pair :: "pystr \<Rightarrow> bool" where
  "no_surrogate_pair (a # b # rest) = (\<not> (is_high a \<and> is_low b) \<and> no_surrogate_pair (b # rest))"
| "no_surrogate_pair [a] = True"
| "no_surrogate_pair [] = True"

text \<open>Auxiliary notions of the proofs about the calendar, base64 and the JSON text.\<close>

definition month_day_ok :: "bool \<Rightarrow> int \<Rightarrow> bool" where
  "month_day_ok lp r = (case month_day lp r of (m, d) \<Rightarrow>
      1 \<le> m \<and> m \<le> 12 \<and> 1 \<le> d
      \<and> d \<le> (if m = 2 \<and> lp then 29 else DAYS_IN_MONTH ! nat m)
      \<and> DAYS_BEFORE_MONTH ! nat m + (if m > 2 \<and> lp then 1 else 0) + d = r + 1)"

definition ymd_ok :: "int \<Rightarrow> int \<times> int \<times> int \<Rightarrow> bool" where
  "ymd_ok n t = (case t of (y, m, d) \<Rightarrow>
      ymd2ord y m d = n \<and> 1 \<le> m \<and> m \<le> 12 \<and> 1 \<le> d \<and> d \<le> days_in_month y m
      \<and> 1 \<le> y \<and> (n \<le> 3652059 \<longrightarrow> y \<le> 9999))"

definition pad_of :: "bytes \<Rightarrow> nat" where
  "pad_of bs = (3 - length bs mod 3) mod 3"

definition hex_char :: "nat \<Rightarrow> nat" where
  "hex_char d = (if d < 10 then 48 + d else 87 + d)"

definition printable :: "nat \<Rightarrow> bool" where
  "printable c = (32 \<le> c \<and> c \<le> 126)"

definition scons :: "nat \<Rightarrow> (pystr \<times> pystr) option \<Rightarrow> (pystr \<times> pystr) option" where
  "scons c r = (case r of None \<Rightarrow> None | Some (str, rest) \<Rightarrow> Some (c # str, rest))"

definition escape_char :: "nat \<Rightarrow> pystr" where
  "escape_char c = (if ESCAPE_ASCII c then replace c else [c])"

subsection \<open>Concrete instances\<close>

text \<open>
  A stand-in for the cryptography package, used to run the definitions on concrete
  inputs: it accepts one PEM text and signs every message with the same 64 bytes.
\<close>

definition test_key :: private_key where
  "test_key = PrivateKey (\<lambda>m. Inr (replicate 64 (CHR 0x01)))"

definition test_crypto :: crypto where
  "test_crypto pem =
     (if pem = ''PEM'' then Inr test_key else Inl (lit ''Could not deserialize key data.''))"

definition test_today :: date where
  "test_today = \<lparr>year = 2024, month = 1, day = 1\<rparr>"

text \<open>
  An environment for runs of \<open>main\<close>: two readable key files (\<open>bad.pem\<close> holds bytes
  the loader refuses), a directory \<open>keys\<close>, and an \<open>op\<close> subprocess that delivers the
  accepted PEM text.
\<close>

definition test_world :: world where
  "test_world =
     \<lparr>expanduser = (\<lambda>p. p),
      path_exists = (\<lambda>p. p = lit ''key.pem'' \<or> p = lit ''bad.pem'' \<or> p = lit ''keys''),
      open_read = (\<lambda>p. if p = lit ''key.pem'' then Inr ''PEM''
                         else if p = lit ''bad.pem'' then Inr ''garbage''
                         else Inl (OSError (lit ''[Errno 21] Is a directory''))),
      subprocess_run = Completed (lit ''PEM'' @ [10]),
      cryptography = Some test_crypto,
      date_today = (\<lambda>n. test_today),
      exn_text = (\<lambda>e. lit ''date value out of range''),
      traceback = (\<lambda>e. lit ''Traceback (most recent call last)'')\<rparr>"

definition test_args :: "pystr option \<Rightarrow> int \<Rightarrow> args" where
  "test_args k y =
     \<lparr>arg_email = lit ''a@b.c'', arg_name = lit ''Jane Doe'', arg_years = y, arg_key = k\<rparr>"

subsection \<open>The calendar: ordinals and dates\<close>

lemma mod_zero_iff_top:
  fixes v k :: int
  assumes "0 < v" "v \<le> k"
  shows "(v mod k = 0) = (v = k)"
proof (cases "v = k")
  case True
  then show ?thesis by simp
next
  case False
  with assms have "v mod k = v" by simp
  with assms False show ?thesis by simp
qed

lemma days_before_year_split:
  assumes "0 \<le> n100" "n100 \<le> 3" "0 \<le> n4" "n4 \<le> 24" "0 \<le> n1" "n1 \<le> 3"
  shows "days_before_year (n400 * 400 + 1 + (n100 * 100 + n4 * 4 + n1))
         = n400 * 146097 + n100 * 36524 + n4 * 1461 + n1 * 365"
proof -
  define y where "y = n400 * 400 + (n100 * 100 + n4 * 4 + n1)"
  have "y = (n400 * 100 + n100 * 25 + n4) * 4 + n1" by (simp add: y_def)
  then have d4: "y div 4 = n400 * 100 + n100 * 25 + n4" using assms by simp
  have "y = (n400 * 4 + n100) * 100 + (n4 * 4 + n1)" by (simp add: y_def)
  moreover have "0 \<le> n4 * 4 + n1" "n4 * 4 + n1 < 100" using assms by simp_all
  ultimately have d100: "y div 100 = n400 * 4 + n100" by simp
  have "y = n400 * 400 + (n100 * 100 + n4 * 4 + n1)" by (simp add: y_def)
  moreover have "0 \<le> n100 * 100 + n4 * 4 + n1" "n100 * 100 + n4 * 4 + n1 < 400"
    using assms by simp_all
  ultimately have d400: "y div 400 = n400" by simp
  have "days_before_year (y + 1) = y * 365 + y div 4 - y div 100 + y div 400"
    by (simp add: days_before_year_def)
  also have "\<dots> = y * 365 + (n400 * 100 + n100 * 25 + n4) - (n400 * 4 + n100) + n400"
    by (simp only: d4 d100 d400)
  also have "\<dots> = n400 * 146097 + n100 * 36524 + n4 * 1461 + n1 * 365"
    unfolding y_def by (simp add: algebra_simps)
  finally show ?thesis by (simp add: y_def add.commute add.left_commute)
qed

lemma is_leap_split:
  assumes "0 \<le> n100" "n100 \<le> 3" "0 \<le> n4" "n4 \<le> 24" "0 \<le> n1" "n1 \<le> 3"
  shows "is_leap (n400 * 400 + 1 + (n100 * 100 + n4 * 4 + n1))
         = (n1 = 3 \<and> (n4 \<noteq> 24 \<or> n100 = 3))"
proof -
  define y where "y = n400 * 400 + 1 + (n100 * 100 + n4 * 4 + n1)"
  have "y = (n400 * 100 + n100 * 25 + n4) * 4 + (n1 + 1)" by (simp add: y_def)
  then have "y mod 4 = (n1 + 1) mod 4" by (simp only: mod_mult_self3)
  moreover have "((n1 + 1) mod 4 = 0) = (n1 + 1 = 4)"
    using assms by (intro mod_zero_iff_top) simp_all
  ultimately have m4: "(y mod 4 = 0) = (n1 = 3)" by simp
  have "y = (n400 * 4 + n100) * 100 + (n4 * 4 + n1 + 1)" by (simp add: y_def)
  then have "y mod 100 = (n4 * 4 + n1 + 1) mod 100" by (simp only: mod_mult_self3)
  moreover have "((n4 * 4 + n1 + 1) mod 100 = 0) = (n4 * 4 + n1 + 1 = 100)"
    using assms by (intro mod_zero_iff_top) simp_all
  moreover have "(n4 * 4 + n1 + 1 = 100) = (n4 = 24 \<and> n1 = 3)" using assms by linarith
  ultimately have m100: "(y mod 100 = 0) = (n4 = 24 \<and> n1 = 3)" by simp
  have "y = n400 * 400 + (n100 * 100 + n4 * 4 + n1 + 1)" by (simp add: y_def)
  then have "y mod 400 = (n100 * 100 + n4 * 4 + n1 + 1) mod 400"
    by (simp only: mod_mult_self3)
  moreover have "((n100 * 100 + n4 * 4 + n1 + 1) mod 400 = 0)
      = (n100 * 100 + n4 * 4 + n1 + 1 = 400)"
    using assms by (intro mod_zero_iff_top) simp_all
  moreover have "(n100 * 100 + n4 * 4 + n1 + 1 = 400) = (n100 = 3 \<and> n4 = 24 \<and> n1 = 3)"
    using assms by linarith
  ultimately have m400: "(y mod 400 = 0) = (n100 = 3 \<and> n4 = 24 \<and> n1 = 3)" by simp
  show ?thesis unfolding is_leap_def y_def [symmetric] m4 m100 m400 by blast
qed

lemma month_day_okI:
  assumes "0 \<le> r" "r < 365"
  shows "month_day_ok lp r"
proof -
  define k where "k = (r + 50) div 32"
  have "1 \<le> k" "k \<le> 12" using assms by (simp_all add: k_def)
  then have "k = 1 \<or> k = 2 \<or> k = 3 \<or> k = 4 \<or> k = 5 \<or> k = 6 \<or> k = 7 \<or> k = 8 \<or> k = 9
      \<or> k = 10 \<or> k = 11 \<or> k = 12" by arith
  moreover have "32 * k \<le> r + 50" "r + 50 < 32 * k + 32" by (simp_all add: k_def)
  ultimately show ?thesis using assms
    unfolding month_day_ok_def month_day_def Let_def k_def [symmetric]
    by (elim disjE) (simp_all add: DAYS_IN_MONTH_def DAYS_BEFORE_MONTH_def)
qed

lemma ord2ymd_alt:
  "ord2ymd n0 =
    (let n = n0 - 1;
         n400 = n div 146097; r1 = n mod 146097;
         n100 = r1 div 36524; r2 = r1 mod 36524;
         n4 = r2 div 1461; r3 = r2 mod 1461;
         n1 = r3 div 365; r4 = r3 mod 365;
         yr = n400 * 400 + 1 + (n100 * 100 + n4 * 4 + n1)
     in if n1 = 4 \<or> n100 = 4 then (yr - 1, 12, 31)
        else (yr, month_day (n1 = 3 \<and> (n4 \<noteq> 24 \<or> n100 = 3)) r4))"
  unfolding ord2ymd_def Let_def by (rule refl)

lemma ymd2ord_ord2ymd:
  assumes "1 \<le> n"
  shows "ymd_ok n (ord2ymd n)"
proof -
  define n' where "n' = n - 1"
  define n400 where "n400 = n' div 146097"
  define r1 where "r1 = n' mod 146097"
  define n100 where "n100 = r1 div 36524"
  define r2 where "r2 = r1 mod 36524"
  define n4 where "n4 = r2 div 1461"
  define r3 where "r3 = r2 mod 1461"
  define n1 where "n1 = r3 div 365"
  define r4 where "r4 = r3 mod 365"
  have e1: "n' = n400 * 146097 + r1" and b1: "0 \<le> r1" "r1 < 146097"
    by (simp_all add: n400_def r1_def)
  have e2: "r1 = n100 * 36524 + r2" and b2: "0 \<le> r2" "r2 < 36524"
    by (simp_all add: n100_def r2_def)
  have e3: "r2 = n4 * 1461 + r3" and b3: "0 \<le> r3" "r3 < 1461"
    by (simp_all add: n4_def r3_def)
  have e4: "r3 = n1 * 365 + r4" and b4: "0 \<le> r4" "r4 < 365"
    by (simp_all add: n1_def r4_def)
  have q1: "0 \<le> n400" using assms by (simp add: n400_def n'_def pos_imp_zdiv_nonneg_iff)
  have q2: "0 \<le> n100" "n100 \<le> 4" using b1 by (simp_all add: n100_def)
  have q3: "0 \<le> n4" "n4 \<le> 24" using b2 by (simp_all add: n4_def)
  have q4: "0 \<le> n1" "n1 \<le> 4" using b3 by (simp_all add: n1_def)
  have alt: "ord2ymd n =
      (if n1 = 4 \<or> n100 = 4 then (n400 * 400 + 1 + (n100 * 100 + n4 * 4 + n1) - 1, 12, 31)
       else (n400 * 400 + 1 + (n100 * 100 + n4 * 4 + n1),
             month_day (n1 = 3 \<and> (n4 \<noteq> 24 \<or> n100 = 3)) r4))"
    unfolding ord2ymd_alt Let_def n'_def n400_def r1_def n100_def r2_def n4_def r3_def n1_def r4_def
    by simp
  have nn: "n = n400 * 146097 + n100 * 36524 + n4 * 1461 + n1 * 365 + r4 + 1"
    using e1 e2 e3 e4 by (simp add: n'_def)
  have tabs: "DAYS_BEFORE_MONTH ! 12 = 334" "DAYS_IN_MONTH ! 12 = 31"
    by (simp_all add: DAYS_BEFORE_MONTH_def DAYS_IN_MONTH_def)
  consider (c100) "n100 = 4" | (c1) "n100 \<le> 3" "n1 = 4" | (reg) "n100 \<le> 3" "n1 \<le> 3"
    using q2 q4 by linarith
  then show ?thesis
  proof cases
    case c100
    then have "r2 = 0" using e2 b1 b2 by linarith
    then have z: "n4 = 0" "n1 = 0" "r4 = 0" by (simp_all add: n4_def r3_def n1_def r4_def)
    have y: "n400 * 400 + 1 + (n100 * 100 + n4 * 4 + n1) - 1
        = n400 * 400 + 1 + (3 * 100 + 24 * 4 + 3)"
      using c100 z by simp
    have "days_before_year (n400 * 400 + 1 + (3 * 100 + 24 * 4 + 3))
        = n400 * 146097 + 3 * 36524 + 24 * 1461 + 3 * 365"
      by (rule days_before_year_split) simp_all
    moreover have "is_leap (n400 * 400 + 1 + (3 * 100 + 24 * 4 + 3))"
      by (subst is_leap_split) simp_all
    moreover have "1 \<le> n400 * 400 + 1 + (3 * 100 + 24 * 4 + 3)" using q1 by simp
    moreover have "n \<le> 3652059 \<longrightarrow> n400 * 400 + 1 + (3 * 100 + 24 * 4 + 3) \<le> 9999"
      using nn c100 z q1 by simp
    ultimately show ?thesis
      unfolding alt ymd_ok_def using c100 z nn
      by (simp only: y if_True simp_thms split ymd2ord_def days_before_month_def
            days_in_month_def tabs)
         (simp add: tabs)
  next
    case c1
    then have r30: "r3 = 1460" "r4 = 0" using e4 b3 b4 by linarith+
    have "n4 \<le> 23"
    proof (rule ccontr)
      assume "\<not> n4 \<le> 23"
      with q3 have "n4 = 24" by simp
      with e3 r30 b2 show False by simp
    qed
    have y: "n400 * 400 + 1 + (n100 * 100 + n4 * 4 + n1) - 1
        = n400 * 400 + 1 + (n100 * 100 + n4 * 4 + 3)"
      using c1 by simp
    have "days_before_year (n400 * 400 + 1 + (n100 * 100 + n4 * 4 + 3))
        = n400 * 146097 + n100 * 36524 + n4 * 1461 + 3 * 365"
      using q2 q3 c1 by (intro days_before_year_split) simp_all
    moreover have "is_leap (n400 * 400 + 1 + (n100 * 100 + n4 * 4 + 3))"
      using q2 q3 c1 \<open>n4 \<le> 23\<close> by (subst is_leap_split) simp_all
    moreover have "1 \<le> n400 * 400 + 1 + (n100 * 100 + n4 * 4 + 3)" using q1 q2 q3 by simp
    moreover have "n \<le> 3652059 \<longrightarrow> n400 * 400 + 1 + (n100 * 100 + n4 * 4 + 3) \<le> 9999"
      using nn c1 r30 q1 q2 q3 by linarith
    ultimately show ?thesis
      unfolding alt ymd_ok_def using c1 r30 nn
      by (simp only: y if_True simp_thms split ymd2ord_def days_before_month_def
            days_in_month_def tabs)
         (simp add: tabs)
  next
    case reg
    define lp where "lp = (n1 = 3 \<and> (n4 \<noteq> 24 \<or> n100 = 3))"
    define yr where "yr = n400 * 400 + 1 + (n100 * 100 + n4 * 4 + n1)"
    have dby: "days_before_year yr = n400 * 146097 + n100 * 36524 + n4 * 1461 + n1 * 365"
      unfolding yr_def using q2 q3 q4 reg by (intro days_before_year_split) simp_all
    have lp: "is_leap yr = lp"
      unfolding yr_def lp_def using q2 q3 q4 reg by (intro is_leap_split) simp_all
    have "month_day_ok lp r4" using b4 by (rule month_day_okI)
    moreover obtain m d where md: "month_day lp r4 = (m, d)" by (cases "month_day lp r4")
    ultimately have ok: "1 \<le> m" "m \<le> 12" "1 \<le> d"
        "d \<le> (if m = 2 \<and> lp then 29 else DAYS_IN_MONTH ! nat m)"
        "DAYS_BEFORE_MONTH ! nat m + (if m > 2 \<and> lp then 1 else 0) + d = r4 + 1"
      using b4 by (simp_all add: month_day_ok_def)
    have yb: "1 \<le> yr" using q1 q2 q3 q4 by (simp add: yr_def)
    have yu: "n \<le> 3652059 \<longrightarrow> yr \<le> 9999"
      unfolding yr_def using nn reg q1 q2 q3 q4 b4 by linarith
    have "ord2ymd n = (yr, m, d)"
      unfolding alt using reg md by (simp add: lp_def yr_def)
    then show ?thesis
      unfolding ymd_ok_def using ok dby lp nn yb yu
      by (simp add: ymd2ord_def days_before_month_def days_in_month_def)
  qed
qed

lemma fromordinal_ok:
  assumes "0 < n" "n \<le> MAXORDINAL"
  shows "\<exists>d. fromordinal n = Inr d \<and> date_valid d \<and> toordinal d = n"
proof -
  obtain y m d where t: "ord2ymd n = (y, m, d)" by (cases "ord2ymd n") auto
  have "ymd_ok n (ord2ymd n)" using assms by (intro ymd2ord_ord2ymd) simp
  then have ok: "ymd2ord y m d = n" "1 \<le> m" "m \<le> 12" "1 \<le> d" "d \<le> days_in_month y m"
      "1 \<le> y" "y \<le> 9999"
    using t assms by (simp_all add: ymd_ok_def MAXORDINAL_def)
  then have "fromordinal n = Inr \<lparr>year = y, month = m, day = d\<rparr>"
    by (simp add: fromordinal_def t date_new_def MINYEAR_def MAXYEAR_def)
  moreover have "date_valid \<lparr>year = y, month = m, day = d\<rparr>"
    using ok by (simp add: date_valid_def MINYEAR_def MAXYEAR_def)
  moreover have "toordinal \<lparr>year = y, month = m, day = d\<rparr> = n"
    using ok by (simp add: toordinal_def)
  ultimately show ?thesis by blast
qed

lemma div_pred:
  fixes y k :: int
  assumes "0 < k"
  shows "y div k = (y - 1) div k + (if y mod k = 0 then 1 else 0)"
proof (cases "y mod k = 0")
  case True
  have "k * (y div k) = y" using True mult_div_mod_eq [of k y] by simp
  then have "y - 1 = k * (y div k - 1) + (k - 1)" by (simp add: algebra_simps)
  then have "(y - 1) div k = y div k - 1"
    using assms by (intro int_div_pos_eq [where r = "k - 1"]) simp_all
  with True show ?thesis by simp
next
  case False
  have "0 \<le> y mod k" using assms by (rule pos_mod_sign)
  with False have m1: "0 \<le> y mod k - 1" by simp
  have "y mod k < k" using assms by (rule pos_mod_bound)
  then have m2: "y mod k - 1 < k" by simp
  have "y - 1 = k * (y div k) + (y mod k - 1)" by simp
  then have "(y - 1) div k = y div k"
    using m1 m2 by (rule int_div_pos_eq)
  with False show ?thesis by simp
qed

lemma days_before_year_Suc:
  "days_before_year (y + 1) = days_before_year y + (if is_leap y then 366 else 365)"
proof -
  define a :: int where "a = (if y mod 4 = 0 then 1 else 0)"
  define b :: int where "b = (if y mod 100 = 0 then 1 else 0)"
  define c :: int where "c = (if y mod 400 = 0 then 1 else 0)"
  define p where "p = (y - 1) div 4"
  define q where "q = (y - 1) div 100"
  define r where "r = (y - 1) div 400"
  have d4: "y div 4 = p + a" unfolding a_def p_def by (rule div_pred) simp
  have d100: "y div 100 = q + b" unfolding b_def q_def by (rule div_pred) simp
  have d400: "y div 400 = r + c" unfolding c_def r_def by (rule div_pred) simp
  have i1: "y mod 100 = 0" if "y mod 400 = 0"
  proof -
    from that have "400 dvd y" by (simp add: mod_eq_0_iff_dvd)
    then have "100 dvd y" by (rule dvd_trans [rotated]) simp
    then show ?thesis by (simp add: mod_eq_0_iff_dvd)
  qed
  have i2: "y mod 4 = 0" if "y mod 100 = 0"
  proof -
    from that have "100 dvd y" by (simp add: mod_eq_0_iff_dvd)
    then have "4 dvd y" by (rule dvd_trans [rotated]) simp
    then show ?thesis by (simp add: mod_eq_0_iff_dvd)
  qed
  consider (A) "y mod 400 = 0" | (B) "y mod 400 \<noteq> 0" "y mod 100 = 0"
    | (C) "y mod 100 \<noteq> 0" "y mod 4 = 0" | (D) "y mod 4 \<noteq> 0" by blast
  then have l: "(if is_leap y then 366 else 365) = 365 + a - b + c"
  proof cases
    case A
    with i1 i2 show ?thesis by (simp add: is_leap_def a_def b_def c_def)
  next
    case B
    with i2 show ?thesis by (simp add: is_leap_def a_def b_def c_def)
  next
    case C
    with i1 show ?thesis by (auto simp add: is_leap_def a_def b_def c_def)
  next
    case D
    with i1 i2 show ?thesis by (auto simp add: is_leap_def a_def b_def c_def)
  qed
  have e: "days_before_year y = (y - 1) * 365 + p - q + r"
    by (simp add: days_before_year_def p_def q_def r_def Let_def)
  have "days_before_year (y + 1) = y * 365 + y div 4 - y div 100 + y div 400"
    by (simp add: days_before_year_def)
  also have "\<dots> = y * 365 + (p + a) - (q + b) + (r + c)"
    by (simp only: d4 d100 d400)
  also have "\<dots> = days_before_year y + (365 + a - b + c)"
    unfolding e by (simp add: algebra_simps)
  finally show ?thesis by (simp only: l)
qed

lemma days_before_year_mono: "y \<le> z \<Longrightarrow> days_before_year y \<le> days_before_year z"
proof (induction z rule: int_ge_induct)
  case base
  show ?case by simp
next
  case (step i)
  have "days_before_year i \<le> days_before_year (i + 1)"
    by (simp add: days_before_year_Suc)
  with step show ?case by simp
qed

lemma day_of_year_bound:
  assumes "1 \<le> m" "m \<le> 12" "1 \<le> d" "d \<le> days_in_month y m"
  shows "1 \<le> days_before_month y m + d"
    and "days_before_month y m + d \<le> (if is_leap y then 366 else 365)"
proof -
  have "m = 1 \<or> m = 2 \<or> m = 3 \<or> m = 4 \<or> m = 5 \<or> m = 6 \<or> m = 7 \<or> m = 8 \<or> m = 9
      \<or> m = 10 \<or> m = 11 \<or> m = 12" using assms by arith
  then have "1 \<le> days_before_month y m + d
      \<and> days_before_month y m + d \<le> (if is_leap y then 366 else 365)"
    using assms
    by (elim disjE)
       (simp_all add: days_before_month_def days_in_month_def DAYS_IN_MONTH_def
          DAYS_BEFORE_MONTH_def split: if_splits)
  then show "1 \<le> days_before_month y m + d"
    and "days_before_month y m + d \<le> (if is_leap y then 366 else 365)" by simp_all
qed

lemma toordinal_range:
  assumes "date_valid d"
  shows "0 < toordinal d" and "toordinal d \<le> MAXORDINAL"
proof -
  have v: "1 \<le> year d" "year d \<le> 9999" "1 \<le> month d" "month d \<le> 12" "1 \<le> day d"
      "day d \<le> days_in_month (year d) (month d)"
    using assms by (simp_all add: date_valid_def MINYEAR_def MAXYEAR_def)
  have lo: "days_before_year 1 \<le> days_before_year (year d)"
    using v by (intro days_before_year_mono) simp
  have "days_before_year (year d + 1) \<le> days_before_year 10000"
    using v by (intro days_before_year_mono) simp
  moreover have "days_before_year 10000 = 3652059" by (simp add: days_before_year_def)
  ultimately have hi:
    "days_before_year (year d) + (if is_leap (year d) then 366 else 365) \<le> 3652059"
    by (simp only: days_before_year_Suc)
  have z: "days_before_year 1 = 0" by (simp add: days_before_year_def)
  note b = day_of_year_bound [OF v(3) v(4) v(5) v(6)]
  show "0 < toordinal d" using lo z b(1) by (simp add: toordinal_def ymd2ord_def)
  show "toordinal d \<le> MAXORDINAL"
    using hi b(2) by (simp add: toordinal_def ymd2ord_def MAXORDINAL_def split: if_splits)
qed

lemma date_add_Inr:
  assumes "date_add d n = Inr d'"
  shows "date_valid d' \<and> toordinal d' = toordinal d + n"
proof -
  from assms have r: "0 < toordinal d + n" "toordinal d + n \<le> MAXORDINAL"
      and f: "fromordinal (toordinal d + n) = Inr d'"
    by (simp_all add: date_add_def Let_def split: if_splits)
  from fromordinal_ok [OF r] f show ?thesis by auto
qed

lemma date_add_total:
  assumes "0 < toordinal d + n" "toordinal d + n \<le> MAXORDINAL"
  shows "\<exists>d'. date_add d n = Inr d'"
  using fromordinal_ok [OF assms] assms by (auto simp add: date_add_def Let_def)

lemma date_add_Inl:
  assumes "\<not> (0 < toordinal d + n \<and> toordinal d + n \<le> MAXORDINAL)"
  shows "date_add d n = Inl OverflowError"
  using assms by (auto simp add: date_add_def Let_def)

lemma day_of_year_inj:
  assumes "1 \<le> m" "m \<le> 12" "1 \<le> d" "d \<le> days_in_month y m"
    and "1 \<le> m'" "m' \<le> 12" "1 \<le> d'" "d' \<le> days_in_month y m'"
    and "days_before_month y m + d = days_before_month y m' + d'"
  shows "m = m' \<and> d = d'"
proof -
  have a: "m = 1 \<or> m = 2 \<or> m = 3 \<or> m = 4 \<or> m = 5 \<or> m = 6 \<or> m = 7 \<or> m = 8 \<or> m = 9
      \<or> m = 10 \<or> m = 11 \<or> m = 12" using assms by arith
  have b: "m' = 1 \<or> m' = 2 \<or> m' = 3 \<or> m' = 4 \<or> m' = 5 \<or> m' = 6 \<or> m' = 7 \<or> m' = 8
      \<or> m' = 9 \<or> m' = 10 \<or> m' = 11 \<or> m' = 12" using assms by arith
  from a b show ?thesis
    using assms(3,4,7,8,9)
    by (elim disjE)
       (simp_all add: days_before_month_def days_in_month_def DAYS_IN_MONTH_def
          DAYS_BEFORE_MONTH_def split: if_splits)
qed

lemma days_before_year_strict:
  assumes "y < z"
  shows "days_before_year y + (if is_leap y then 366 else 365) \<le> days_before_year z"
proof -
  have "days_before_year (y + 1) \<le> days_before_year z"
    using assms by (intro days_before_year_mono) simp
  then show ?thesis by (simp only: days_before_year_Suc)
qed

lemma toordinal_inj:
  assumes "date_valid a" "date_valid b" "toordinal a = toordinal b"
  shows "a = b"
proof -
  have va: "1 \<le> month a" "month a \<le> 12" "1 \<le> day a" "day a \<le> days_in_month (year a) (month a)"
    using assms(1) by (simp_all add: date_valid_def)
  have vb: "1 \<le> month b" "month b \<le> 12" "1 \<le> day b" "day b \<le> days_in_month (year b) (month b)"
    using assms(2) by (simp_all add: date_valid_def)
  note ba = day_of_year_bound [OF va]
  note bb = day_of_year_bound [OF vb]
  have e: "days_before_year (year a) + (days_before_month (year a) (month a) + day a)
      = days_before_year (year b) + (days_before_month (year b) (month b) + day b)"
    using assms(3) by (simp add: toordinal_def ymd2ord_def)
  have y: "year a = year b"
  proof (rule ccontr)
    assume "year a \<noteq> year b"
    then consider "year a < year b" | "year b < year a" by linarith
    then show False
    proof cases
      case 1
      from days_before_year_strict [OF 1] ba bb e show False by (simp split: if_splits)
    next
      case 2
      from days_before_year_strict [OF 2] ba bb e show False by (simp split: if_splits)
    qed
  qed
  have "days_before_month (year a) (month a) + day a
      = days_before_month (year a) (month b) + day b"
    using e y by simp
  from day_of_year_inj [OF va vb [folded y] this]
  have "month a = month b" "day a = day b" by simp_all
  with y show ?thesis by (intro date.equality) simp_all
qed

subsection \<open>The ISO format of a date\<close>

lemma dec_digits_lt_10: "n < 10 \<Longrightarrow> dec_digits n = [48 + n]"
  by (subst dec_digits.simps) simp

lemma dec_digits_ge_10: "10 \<le> n \<Longrightarrow> dec_digits n = dec_digits (n div 10) @ [48 + n mod 10]"
  by (subst dec_digits.simps) simp

lemma replicate_small:
  "replicate 1 x = [x]" "replicate 2 x = [x, x]" "replicate 3 x = [x, x, x]"
  by (simp_all add: numeral_2_eq_2 numeral_3_eq_3)

lemma dec_digits_lt_100:
  assumes "n < 100"
  shows "zfill 2 (dec_digits n) = [48 + n div 10, 48 + n mod 10]"
proof (cases "n < 10")
  case True
  then show ?thesis by (simp add: dec_digits_lt_10 zfill_def replicate_small)
next
  case False
  then have "n div 10 < 10" using assms by simp
  with False show ?thesis by (simp add: dec_digits_ge_10 dec_digits_lt_10 zfill_def replicate_small)
qed

lemma dec_digits_lt_10000:
  assumes "n < 10000"
  shows "zfill 4 (dec_digits n)
         = [48 + n div 10 div 10 div 10, 48 + n div 10 div 10 mod 10, 48 + n div 10 mod 10,
            48 + n mod 10]"
proof -
  consider (a) "n < 10" | (b) "10 \<le> n" "n < 100" | (c) "100 \<le> n" "n < 1000"
    | (d) "1000 \<le> n" by linarith
  then show ?thesis
  proof cases
    case a
    then show ?thesis by (simp add: dec_digits_lt_10 zfill_def replicate_small)
  next
    case b
    then have "n div 10 < 10" by simp
    with b show ?thesis
      by (simp add: dec_digits_ge_10 dec_digits_lt_10 zfill_def replicate_small)
  next
    case c
    then have q: "10 \<le> n div 10" "n div 10 div 10 < 10" by simp_all
    have "dec_digits n = [48 + n div 10 div 10, 48 + n div 10 mod 10, 48 + n mod 10]"
      using c q by (simp add: dec_digits_ge_10 dec_digits_lt_10)
    then show ?thesis using q by (simp add: zfill_def replicate_small)
  next
    case d
    then have q: "10 \<le> n div 10" "10 \<le> n div 10 div 10" "n div 10 div 10 div 10 < 10"
      using assms by simp_all
    have "dec_digits n = [48 + n div 10 div 10 div 10, 48 + n div 10 div 10 mod 10,
        48 + n div 10 mod 10, 48 + n mod 10]"
      using d q by (simp add: dec_digits_ge_10 dec_digits_lt_10)
    then show ?thesis by (simp add: zfill_def)
  qed
qed

lemma days_in_month_le_31:
  assumes "1 \<le> m" "m \<le> 12"
  shows "days_in_month y m \<le> 31"
proof -
  have "m = 1 \<or> m = 2 \<or> m = 3 \<or> m = 4 \<or> m = 5 \<or> m = 6 \<or> m = 7 \<or> m = 8 \<or> m = 9
      \<or> m = 10 \<or> m = 11 \<or> m = 12" using assms by arith
  then show ?thesis
    by (elim disjE) (simp_all add: days_in_month_def DAYS_IN_MONTH_def)
qed

lemma isoformat_explicit:
  assumes "date_valid d"
  shows "isoformat d =
     [48 + nat (year d) div 10 div 10 div 10, 48 + nat (year d) div 10 div 10 mod 10,
      48 + nat (year d) div 10 mod 10, 48 + nat (year d) mod 10, 45,
      48 + nat (month d) div 10, 48 + nat (month d) mod 10, 45,
      48 + nat (day d) div 10, 48 + nat (day d) mod 10]"
proof -
  have v: "1 \<le> year d" "year d \<le> 9999" "1 \<le> month d" "month d \<le> 12" "1 \<le> day d"
      "day d \<le> days_in_month (year d) (month d)"
    using assms by (simp_all add: date_valid_def MINYEAR_def MAXYEAR_def)
  have "day d \<le> 31" using days_in_month_le_31 [OF v(3) v(4), of "year d"] v(6) by simp
  then have "nat (year d) < 10000" "nat (month d) < 100" "nat (day d) < 100"
    using v by simp_all
  then show ?thesis
    using v by (simp add: isoformat_def fmt_d_def dec_digits_lt_10000 dec_digits_lt_100)
qed

lemma digit_value_48: "a < 10 \<Longrightarrow> digit_value (48 + a) = Some a"
  by (simp add: digit_value_def)

lemma dec_value_2: "a < 10 \<Longrightarrow> b < 10 \<Longrightarrow> dec_value [48 + a, 48 + b] = Some (10 * a + b)"
  by (simp add: dec_value_def digit_value_48)

lemma dec_value_4:
  "a < 10 \<Longrightarrow> b < 10 \<Longrightarrow> c < 10 \<Longrightarrow> e < 10 \<Longrightarrow>
   dec_value [48 + a, 48 + b, 48 + c, 48 + e] = Some (10 * (10 * (10 * a + b) + c) + e)"
  by (simp add: dec_value_def digit_value_48)

lemma date_fromisoformat_isoformat:
  assumes "date_valid d"
  shows "date_fromisoformat (isoformat d) = Some d"
proof -
  have v: "1 \<le> year d" "year d \<le> 9999" "1 \<le> month d" "month d \<le> 12" "1 \<le> day d"
      "day d \<le> days_in_month (year d) (month d)"
    using assms by (simp_all add: date_valid_def MINYEAR_def MAXYEAR_def)
  have d31: "day d \<le> 31" using days_in_month_le_31 [OF v(3) v(4), of "year d"] v(6) by simp
  define y where "y = nat (year d)"
  define m where "m = nat (month d)"
  define dd where "dd = nat (day d)"
  have b: "y < 10000" "m < 100" "dd < 100" using v d31 by (simp_all add: y_def m_def dd_def)
  have i: "int y = year d" "int m = month d" "int dd = day d"
    using v by (simp_all add: y_def m_def dd_def)
  have iso: "isoformat d = [48 + y div 10 div 10 div 10, 48 + y div 10 div 10 mod 10,
      48 + y div 10 mod 10, 48 + y mod 10, 45, 48 + m div 10, 48 + m mod 10, 45, 48 + dd div 10, 48 + dd mod 10]"
    using isoformat_explicit [OF assms] by (simp add: y_def m_def dd_def)
  have yv: "dec_value [48 + y div 10 div 10 div 10, 48 + y div 10 div 10 mod 10,
      48 + y div 10 mod 10, 48 + y mod 10] = Some y"
  proof -
    have "y div 10 div 10 div 10 < 10" using b by simp
    then have "dec_value [48 + y div 10 div 10 div 10, 48 + y div 10 div 10 mod 10,
        48 + y div 10 mod 10, 48 + y mod 10]
      = Some (10 * (10 * (10 * (y div 10 div 10 div 10) + y div 10 div 10 mod 10)
                + y div 10 mod 10) + y mod 10)"
      by (intro dec_value_4) simp_all
    then show ?thesis by simp
  qed
  have mv: "dec_value [48 + m div 10, 48 + m mod 10] = Some m"
  proof -
    have "m div 10 < 10" using b by simp
    then have "dec_value [48 + m div 10, 48 + m mod 10] = Some (10 * (m div 10) + m mod 10)"
      by (intro dec_value_2) simp_all
    then show ?thesis by simp
  qed
  have dv: "dec_value [48 + dd div 10, 48 + dd mod 10] = Some dd"
  proof -
    have "dd div 10 < 10" using b by simp
    then have "dec_value [48 + dd div 10, 48 + dd mod 10] = Some (10 * (dd div 10) + dd mod 10)"
      by (intro dec_value_2) simp_all
    then show ?thesis by simp
  qed
  have "date_new (year d) (month d) (day d) = Inr d"
    using v by (simp add: date_new_def MINYEAR_def MAXYEAR_def)
  then show ?thesis
    unfolding iso date_fromisoformat_def by (simp add: yv mv dv i)
qed

subsection \<open>Base64: the library calls against RFC 4648\<close>

lemma of_char_lt_256: "(of_char c :: nat) < 256"
  by (cases c) (simp add: of_char_def)

lemma sextets_lt_64: "list_all (\<lambda>v. v < 64) (sextets bs)"
proof (induction bs rule: sextets.induct)
  case (1 a b c rest)
  have "(of_char a :: nat) < 256" "(of_char b :: nat) < 256" "(of_char c :: nat) < 256"
    by (rule of_char_lt_256)+
  then have "(of_char a :: nat) div 4 < 64"
      "(of_char a :: nat) mod 4 * 16 + of_char b div 16 < 64"
      "(of_char b :: nat) mod 16 * 4 + of_char c div 64 < 64"
    by arith+
  with 1 show ?case by (simp add: Let_def)
next
  case (2 a b)
  have "(of_char a :: nat) < 256" "(of_char b :: nat) < 256"
    by (rule of_char_lt_256)+
  then have "(of_char a :: nat) div 4 < 64"
      "(of_char a :: nat) mod 4 * 16 + of_char b div 16 < 64"
      "(of_char b :: nat) mod 16 * 4 < 64"
    by arith+
  then show ?case by (simp add: Let_def)
next
  case (3 a)
  have "(of_char a :: nat) < 256" by (rule of_char_lt_256)
  then have "(of_char a :: nat) div 4 < 64" "(of_char a :: nat) mod 4 * 16 < 64" by arith+
  then show ?case by (simp add: Let_def)
next
  case 4
  show ?case by simp
qed

lemma b2a_base64_sextets:
  "b2a_base64 bs = map (\<lambda>i. table_b2a_base64 ! i) (sextets bs) @ replicate (pad_of bs) CHR ''=''"
proof (induction bs rule: sextets.induct)
  case (1 a b c rest)
  have "pad_of (a # b # c # rest) = pad_of rest" by (simp add: pad_of_def)
  with 1 show ?case by (simp add: Let_def)
next
  case (2 a b)
  show ?case by (simp add: Let_def pad_of_def)
next
  case (3 a)
  show ?case by (simp add: Let_def pad_of_def numeral_2_eq_2)
next
  case 4
  show ?case by (simp add: pad_of_def)
qed

lemma table_map:
  "map (\<lambda>c. of_char (urlsafe_encode_translation c)) table_b2a_base64 = map base64url_char [0..<64]"
  by code_simp

lemma table_no_pad: "CHR ''='' \<notin> set (map urlsafe_encode_translation table_b2a_base64)"
  by code_simp

lemma table_length: "length table_b2a_base64 = 64"
  by (simp add: table_b2a_base64_def)

lemma table_translation_lt_64:
  assumes "i < 64"
  shows "of_char (urlsafe_encode_translation (table_b2a_base64 ! i)) = base64url_char i"
    and "urlsafe_encode_translation (table_b2a_base64 ! i) \<noteq> CHR ''=''"
proof -
  have "map (\<lambda>c. of_char (urlsafe_encode_translation c)) table_b2a_base64 ! i
      = map base64url_char [0..<64] ! i"
    by (simp only: table_map)
  then show "of_char (urlsafe_encode_translation (table_b2a_base64 ! i)) = base64url_char i"
    using assms by (simp add: table_length)
  have "urlsafe_encode_translation (table_b2a_base64 ! i)
      \<in> set (map urlsafe_encode_translation table_b2a_base64)"
    using assms by (simp add: table_length)
  with table_no_pad show "urlsafe_encode_translation (table_b2a_base64 ! i) \<noteq> CHR ''=''"
    by metis
qed

lemma rstrip_padding:
  assumes "\<forall>c \<in> set xs. c \<noteq> CHR ''=''"
  shows "rstrip ''='' (xs @ replicate k CHR ''='') = xs"
proof -
  have "dropWhile (\<lambda>c. c = CHR ''='') (replicate k CHR ''='' @ rev xs) = rev xs"
  proof (induction k)
    case 0
    show ?case
    proof (cases "rev xs")
      case Nil
      then show ?thesis by simp
    next
      case (Cons y ys)
      then have "y \<in> set xs" by (metis list.set_intros(1) set_rev)
      with assms Cons show ?thesis by simp
    qed
  next
    case (Suc k)
    then show ?case by simp
  qed
  then show ?thesis by (simp add: rstrip_def)
qed

lemma b64url_eq_spec: "b64url bs = base64url_unpadded bs"
proof -
  let ?enc = "map (\<lambda>i. urlsafe_encode_translation (table_b2a_base64 ! i)) (sextets bs)"
  have lt: "\<forall>v \<in> set (sextets bs). v < 64"
    using sextets_lt_64 [of bs] by (simp add: list_all_iff)
  have "urlsafe_b64encode bs = ?enc @ replicate (pad_of bs) CHR ''=''"
    by (simp add: urlsafe_b64encode_def b2a_base64_sextets urlsafe_encode_translation_def comp_def)
  moreover have "\<forall>c \<in> set ?enc. c \<noteq> CHR ''=''"
    using lt table_translation_lt_64(2) by auto
  ultimately have "rstrip ''='' (urlsafe_b64encode bs) = ?enc"
    by (simp add: rstrip_padding)
  then have "b64url bs
      = map (\<lambda>i. of_char (urlsafe_encode_translation (table_b2a_base64 ! i))) (sextets bs)"
    by (simp add: b64url_def comp_def)
  also have "\<dots> = map base64url_char (sextets bs)"
    using lt table_translation_lt_64(1) by (intro map_cong) simp_all
  finally show ?thesis by (simp add: base64url_unpadded_def)
qed

lemma base64url_value_char:
  assumes "i < 64"
  shows "base64url_value (base64url_char i) = Some i"
proof -
  consider "i < 26" | "26 \<le> i" "i < 52" | "52 \<le> i" "i < 62" | "i = 62" | "i = 63"
    using assms by linarith
  then show ?thesis
  proof cases
    case 3
    define j where "j = i - 52"
    have j: "i = 52 + j" "j < 10" using 3 by (simp_all add: j_def)
    show ?thesis unfolding j(1) using j(2) by (simp add: base64url_value_def base64url_char_def)
  qed (simp_all add: base64url_value_def base64url_char_def)
qed

lemma those_base64url_value:
  "list_all (\<lambda>v. v < 64) vs \<Longrightarrow> those (map base64url_value (map base64url_char vs)) = Some vs"
  by (induction vs) (simp_all add: base64url_value_char)

lemma unsextets_sextets: "unsextets (sextets bs) = Some bs"
proof (induction bs rule: sextets.induct)
  case (1 a b c rest)
  define x :: nat where "x = of_char a"
  define y :: nat where "y = of_char b"
  define z :: nat where "z = of_char c"
  have b: "x < 256" "y < 256" "z < 256" by (simp_all add: x_def y_def z_def of_char_lt_256)
  have "(x mod 4 * 16 + y div 16) div 16 = x mod 4" using b by simp
  then have e1: "x div 4 * 4 + (x mod 4 * 16 + y div 16) div 16 = x" by simp
  have "(x mod 4 * 16 + y div 16) mod 16 = y div 16" using b by simp
  moreover have "(y mod 16 * 4 + z div 64) div 4 = y mod 16" using b by simp
  ultimately have e2: "(x mod 4 * 16 + y div 16) mod 16 * 16 + (y mod 16 * 4 + z div 64) div 4 = y"
    by simp
  have "(y mod 16 * 4 + z div 64) mod 4 = z div 64" using b by simp
  then have e3: "(y mod 16 * 4 + z div 64) mod 4 * 64 + z mod 64 = z" by simp
  have c: "char_of x = a" "char_of y = b" "char_of z = c" by (simp_all add: x_def y_def z_def)
  have s: "sextets (a # b # c # rest)
      = x div 4 # (x mod 4 * 16 + y div 16) # (y mod 16 * 4 + z div 64) # z mod 64 # sextets rest"
    by (simp add: Let_def x_def y_def z_def)
  show ?case
    unfolding s
    by (simp only: unsextets.simps "1.IH" option.case e1 e2 e3 c append_Cons append_Nil)
next
  case (2 a b)
  define x :: nat where "x = of_char a"
  define y :: nat where "y = of_char b"
  have b: "x < 256" "y < 256" by (simp_all add: x_def y_def of_char_lt_256)
  have "(x mod 4 * 16 + y div 16) div 16 = x mod 4" using b by simp
  then have e1: "x div 4 * 4 + (x mod 4 * 16 + y div 16) div 16 = x" by simp
  have "(x mod 4 * 16 + y div 16) mod 16 = y div 16" using b by simp
  then have e2: "(x mod 4 * 16 + y div 16) mod 16 * 16 + (y mod 16 * 4) div 4 = y"
    by simp
  have c: "char_of x = a" "char_of y = b" by (simp_all add: x_def y_def)
  have s: "sextets [a, b] = [x div 4, x mod 4 * 16 + y div 16, y mod 16 * 4]"
    by (simp add: Let_def x_def y_def)
  show ?case
    unfolding s by (simp only: unsextets.simps e1 e2 c)
next
  case (3 a)
  define x :: nat where "x = of_char a"
  have e1: "x div 4 * 4 + (x mod 4 * 16) div 16 = x" by simp
  have c: "char_of x = a" by (simp add: x_def)
  have s: "sextets [a] = [x div 4, x mod 4 * 16]"
    by (simp add: Let_def x_def)
  show ?case
    unfolding s by (simp only: unsextets.simps e1 c)
next
  case 4
  show ?case by simp
qed

lemma base64url_decode_encode: "base64url_decode (base64url_unpadded bs) = Some bs"
  by (simp add: base64url_decode_def base64url_unpadded_def those_base64url_value
        sextets_lt_64 unsextets_sextets del: map_map)

lemma base64url_no_dot: "46 \<notin> set (base64url_unpadded bs)"
  by (auto simp add: base64url_unpadded_def base64url_char_def split: if_splits)

lemma token_parts_join:
  assumes "46 \<notin> set p"
  shows "token_parts (lit ''FINCH-'' @ p @ lit ''.'' @ s) = Some (p, s)"
proof -
  have l: "length (lit ''FINCH-'') = 6" by (simp add: lit_def)
  have d: "lit ''.'' = [46]" by (simp add: lit_def)
  have "takeWhile (\<lambda>c. c \<noteq> 46) (p @ 46 # s) = p"
    using assms by (intro takeWhile_tail [THEN trans] takeWhile_eq_all_conv [THEN iffD2]) auto
  moreover have "dropWhile (\<lambda>c. c \<noteq> 46) (p @ 46 # s) = 46 # s"
    using assms by (subst dropWhile_append2) auto
  ultimately show ?thesis by (simp add: token_parts_def l d)
qed

subsection \<open>The JSON text is printable ASCII\<close>

lemma hex_digits_lt_16: "n < 16 \<Longrightarrow> hex_digits n = [hex_char n]"
  by (subst hex_digits.simps) (simp add: hex_char_def Let_def)

lemma hex_digits_ge_16:
  "16 \<le> n \<Longrightarrow> hex_digits n = hex_digits (n div 16) @ [hex_char (n mod 16)]"
  by (subst hex_digits.simps) (simp add: hex_char_def Let_def)

lemma printable_hex_char: "d < 16 \<Longrightarrow> printable (hex_char d)"
  by (simp add: printable_def hex_char_def)

lemma printable_hex_digits: "list_all printable (hex_digits n)"
proof (induction n rule: hex_digits.induct)
  case (1 n)
  show ?case
  proof (cases "n < 16")
    case True
    then show ?thesis by (simp add: hex_digits_lt_16 printable_hex_char)
  next
    case False
    then have "list_all printable (hex_digits (n div 16))" using 1 by simp
    with False show ?thesis by (simp add: hex_digits_ge_16 printable_hex_char)
  qed
qed

lemma printable_zeros: "list_all printable (replicate k 48)"
  by (induction k) (simp_all add: printable_def)

lemma printable_fmt_04x: "list_all printable (fmt_04x n)"
  by (simp add: fmt_04x_def zfill_def printable_hex_digits printable_zeros)

lemma fmt_04x_explicit:
  assumes "n < 65536"
  shows "fmt_04x n = [hex_char (n div 16 div 16 div 16), hex_char (n div 16 div 16 mod 16),
      hex_char (n div 16 mod 16), hex_char (n mod 16)]"
proof -
  consider (a) "n < 16" | (b) "16 \<le> n" "n < 256" | (c) "256 \<le> n" "n < 4096"
    | (d) "4096 \<le> n" by linarith
  then show ?thesis
  proof cases
    case a
    then show ?thesis
      by (simp add: fmt_04x_def hex_digits_lt_16 zfill_def replicate_small hex_char_def)
  next
    case b
    then have "n div 16 < 16" by simp
    with b show ?thesis
      by (simp add: fmt_04x_def hex_digits_ge_16 hex_digits_lt_16 zfill_def replicate_small
            hex_char_def)
  next
    case c
    then have q: "16 \<le> n div 16" "n div 16 div 16 < 16" by simp_all
    have "hex_digits n = [hex_char (n div 16 div 16), hex_char (n div 16 mod 16),
        hex_char (n mod 16)]"
      using c q by (simp add: hex_digits_ge_16 hex_digits_lt_16)
    then show ?thesis using q by (simp add: fmt_04x_def zfill_def replicate_small hex_char_def)
  next
    case d
    then have q: "16 \<le> n div 16" "16 \<le> n div 16 div 16" "n div 16 div 16 div 16 < 16"
      using assms by simp_all
    have "hex_digits n = [hex_char (n div 16 div 16 div 16), hex_char (n div 16 div 16 mod 16),
        hex_char (n div 16 mod 16), hex_char (n mod 16)]"
      using d q by (simp add: hex_digits_ge_16 hex_digits_lt_16)
    then show ?thesis by (simp add: fmt_04x_def zfill_def)
  qed
qed

lemma printable_replace: "list_all printable (replace c)"
proof (cases "ESCAPE_DCT c")
  case None
  then show ?thesis
    using printable_fmt_04x
    by (simp add: replace_def Let_def) (simp add: printable_def)
next
  case (Some r)
  then have "list_all printable r"
    using printable_fmt_04x [of c]
    by (auto simp add: ESCAPE_DCT_def printable_def split: if_splits)
  with Some show ?thesis by (simp add: replace_def)
qed

lemma printable_escape_sub: "list_all printable (escape_sub s)"
proof (induction s)
  case Nil
  show ?case by (simp add: escape_sub_def)
next
  case (Cons c s)
  have "list_all printable (if ESCAPE_ASCII c then replace c else [c])"
    by (simp add: printable_replace) (simp add: ESCAPE_ASCII_def printable_def)
  with Cons show ?case by (simp add: escape_sub_def)
qed

lemma printable_py_encode_basestring_ascii: "list_all printable (py_encode_basestring_ascii s)"
  by (simp add: py_encode_basestring_ascii_def printable_escape_sub) (simp add: printable_def)

subsection \<open>UTF-8 on ASCII text\<close>

lemma py_encode_ascii:
  "list_all (\<lambda>c. c < 128) (s :: nat list) \<Longrightarrow> py_encode s = Inr (map char_of s)"
  by (induction s) (simp_all add: utf8_char_def)

lemma of_char_char_of_ascii: "c < 128 \<Longrightarrow> (of_char (char_of c :: char) :: nat) = c"
  by simp

lemma map_of_char_char_of:
  "list_all (\<lambda>c. c < 128) (s :: nat list) \<Longrightarrow> map of_char (map char_of s :: char list) = s"
  by (induction s) simp_all

lemma printable_ascii: "list_all printable s \<Longrightarrow> list_all (\<lambda>c. c < 128) s"
  by (induction s) (simp_all add: printable_def)

subsection \<open>Scanning an escaped string\<close>

lemma merge_surrogates_id: "no_surrogate_pair s \<Longrightarrow> merge_surrogates s = s"
  by (induction s rule: merge_surrogates.induct) auto

lemma and_3ff: "(n::nat) AND 0x3ff = n mod 1024"
proof -
  have m: "(0x3ff::nat) = mask 10" by (simp add: mask_eq_exp_minus_1)
  have "n AND mask 10 = take_bit 10 n" by (simp only: take_bit_eq_mask)
  also have "\<dots> = n mod 1024" by (simp add: take_bit_eq_mod)
  finally show ?thesis by (simp only: m)
qed

lemma or_high:
  assumes "(x::nat) < 1024"
  shows "push_bit 10 k OR x = k * 1024 + x"
proof -
  have x: "take_bit 10 x = x" using assms by (simp add: take_bit_nat_eq_self)
  have "push_bit 10 k + take_bit 10 x = push_bit 10 k OR take_bit 10 x"
    by (rule disjunctive_add) (auto simp add: bit_push_bit_iff bit_take_bit_iff)
  then show ?thesis by (simp add: x push_bit_eq_mult)
qed

lemma surrogate_pair_of:
  fixes c :: nat
  assumes "0x10000 \<le> c" "c < 0x110000"
  shows "0xd800 OR (drop_bit 10 (c - 0x10000) AND 0x3ff) = 0xd800 + (c - 0x10000) div 1024"
    and "0xdc00 OR ((c - 0x10000) AND 0x3ff) = 0xdc00 + (c - 0x10000) mod 1024"
proof -
  define n where "n = c - 0x10000"
  have n: "n < 1048576" using assms by (simp add: n_def)
  then have d: "n div 1024 < 1024" by simp
  have "drop_bit 10 n AND 0x3ff = n div 1024 mod 1024"
    by (simp only: and_3ff) (simp add: drop_bit_eq_div)
  also have "\<dots> = n div 1024" using d by simp
  finally have a: "drop_bit 10 n AND 0x3ff = n div 1024" .
  have "(0xd800::nat) = push_bit 10 54" by (simp add: push_bit_eq_mult)
  then have "0xd800 OR n div 1024 = 54 * 1024 + n div 1024"
    using or_high [OF d, of 54] by simp
  then show "0xd800 OR (drop_bit 10 (c - 0x10000) AND 0x3ff) = 0xd800 + (c - 0x10000) div 1024"
    unfolding n_def [symmetric] a by simp
  have m: "n mod 1024 < 1024" by simp
  have "(0xdc00::nat) = push_bit 10 55" by (simp add: push_bit_eq_mult)
  then have "0xdc00 OR n mod 1024 = 55 * 1024 + n mod 1024"
    using or_high [OF m, of 55] by simp
  then show "0xdc00 OR ((c - 0x10000) AND 0x3ff) = 0xdc00 + (c - 0x10000) mod 1024"
    unfolding n_def [symmetric] and_3ff by simp
qed

lemma hex_value_hex_char: "d < 16 \<Longrightarrow> hex_value (hex_char d) = Some d"
  by (simp add: hex_value_def hex_char_def)

lemma decode_uXXXX_fmt:
  assumes "n < 65536"
  shows "decode_uXXXX (fmt_04x n @ t) = Some n"
proof -
  have "n div 16 div 16 div 16 < 16" using assms by simp
  then show ?thesis
    by (simp add: fmt_04x_explicit [OF assms] decode_uXXXX_def hex_value_hex_char)
qed

lemma length_fmt_04x: "n < 65536 \<Longrightarrow> length (fmt_04x n) = 4"
  by (simp add: fmt_04x_explicit)

lemma scan_plain:
  "c \<noteq> 34 \<Longrightarrow> c \<noteq> 92 \<Longrightarrow> 32 \<le> c \<Longrightarrow> scanstring (c # t) = scons c (scanstring t)"
  by (simp add: scons_def)

lemma scan_short:
  "e \<noteq> 117 \<Longrightarrow> BACKSLASH e = Some ch \<Longrightarrow> scanstring (92 # e # t) = scons ch (scanstring t)"
  by (simp add: scons_def)

lemma scan_u_single:
  assumes "n < 65536" "\<not> (is_high n \<and> take 2 t = [92, 117])"
  shows "scanstring ([92, 117] @ fmt_04x n @ t) = scons n (scanstring t)"
  using assms
  by (auto simp add: decode_uXXXX_fmt length_fmt_04x scons_def)

lemma scan_u_not_joined:
  assumes "n < 65536" "decode_uXXXX (drop 2 t) = Some u2" "\<not> is_low u2"
  shows "scanstring ([92, 117] @ fmt_04x n @ t) = scons n (scanstring t)"
  using assms
  by (simp add: decode_uXXXX_fmt length_fmt_04x scons_def)

lemma scan_u_joined:
  assumes "is_high h" "is_low l"
  shows "scanstring ([92, 117] @ fmt_04x h @ [92, 117] @ fmt_04x l @ t)
         = scons (0x10000 + ((h - 0xd800) * 1024 + (l - 0xdc00))) (scanstring t)"
proof -
  have b: "h < 65536" "l < 65536" using assms by (simp_all add: is_high_def is_low_def)
  have "l - 0xdc00 < 1024" using assms unfolding is_low_def by arith
  then have pb: "push_bit 10 (h - 0xd800) OR (l - 0xdc00) = (h - 0xd800) * 1024 + (l - 0xdc00)"
    by (rule or_high)
  show ?thesis
    using assms b
    by (simp add: decode_uXXXX_fmt length_fmt_04x scons_def pb split: option.splits)
qed

lemma escape_sub_Cons: "escape_sub (c # s) = escape_char c @ escape_sub s"
  by (simp add: escape_sub_def escape_char_def)

lemma escape_sub_Nil: "escape_sub [] = []"
  by (simp add: escape_sub_def)

lemma escape_char_forms:
  assumes "c < 0x110000"
  obtains (plain) "escape_char c = [c]" "c \<noteq> 34" "c \<noteq> 92" "32 \<le> c" "c \<le> 126"
  | (short) e where "escape_char c = [92, e]" "e \<noteq> 117" "BACKSLASH e = Some c" "c < 127"
  | (single) "escape_char c = [92, 117] @ fmt_04x c" "c < 65536" "c < 32 \<or> 126 < c"
  | (pair) h l where "escape_char c = [92, 117] @ fmt_04x h @ [92, 117] @ fmt_04x l"
      "is_high h" "is_low l" "c = 0x10000 + ((h - 0xd800) * 1024 + (l - 0xdc00))" "0x10000 \<le> c"
proof -
  consider (a) "c = 34 \<or> c = 92 \<or> c = 8 \<or> c = 12 \<or> c = 10 \<or> c = 13 \<or> c = 9"
    | (b) "c < 32" "\<not> (c = 8 \<or> c = 12 \<or> c = 10 \<or> c = 13 \<or> c = 9)"
    | (c) "32 \<le> c" "c \<le> 126" "c \<noteq> 34" "c \<noteq> 92"
    | (d) "126 < c" "c < 0x10000"
    | (e) "0x10000 \<le> c"
    by linarith
  then show ?thesis
  proof cases
    case a
    then show ?thesis
      by (elim disjE)
         (rule short [of "if c = 34 then 34 else if c = 92 then 92 else if c = 8 then 98
              else if c = 12 then 102 else if c = 10 then 110 else if c = 13 then 114 else 116"],
           simp_all add: escape_char_def ESCAPE_ASCII_def replace_def ESCAPE_DCT_def BACKSLASH_def)+
  next
    case b
    then show ?thesis
      by (intro single)
         (auto simp add: escape_char_def ESCAPE_ASCII_def replace_def ESCAPE_DCT_def)
  next
    case c
    then show ?thesis
      by (intro plain) (simp_all add: escape_char_def ESCAPE_ASCII_def)
  next
    case d
    then show ?thesis
      by (intro single)
         (simp_all add: escape_char_def ESCAPE_ASCII_def replace_def ESCAPE_DCT_def)
  next
    case e
    define n where "n = c - 0x10000"
    have n: "n < 1048576" "c = 0x10000 + n" using assms e by (simp_all add: n_def)
    then have d: "n div 1024 < 1024" by simp
    note sp = surrogate_pair_of [OF e assms, folded n_def]
    have "escape_char c = [92, 117] @ fmt_04x (0xd800 + n div 1024) @ [92, 117]
        @ fmt_04x (0xdc00 + n mod 1024)"
      using e sp
      by (simp add: escape_char_def ESCAPE_ASCII_def replace_def ESCAPE_DCT_def Let_def
            n_def [symmetric])
    moreover have "is_high (0xd800 + n div 1024)" using d by (simp add: is_high_def)
    moreover have "is_low (0xdc00 + n mod 1024)" by (simp add: is_low_def)
    moreover have "c = 0x10000 + ((0xd800 + n div 1024 - 0xd800) * 1024
        + (0xdc00 + n mod 1024 - 0xdc00))"
      using n by simp
    ultimately show ?thesis using e by (rule pair)
  qed
qed

lemma scan_char:
  assumes "c < 0x110000"
    and "is_high c \<Longrightarrow> take 2 t \<noteq> [92, 117]
           \<or> (\<exists>u2. decode_uXXXX (drop 2 t) = Some u2 \<and> \<not> is_low u2)"
  shows "scanstring (escape_char c @ t) = scons c (scanstring t)"
  using assms(1)
proof (cases rule: escape_char_forms)
  case plain
  then show ?thesis by (simp add: scan_plain del: scanstring.simps)
next
  case (short e)
  then show ?thesis by (simp add: scan_short del: scanstring.simps)
next
  case single
  have "scanstring ([92, 117] @ fmt_04x c @ t) = scons c (scanstring t)"
  proof (cases "is_high c \<and> take 2 t = [92, 117]")
    case True
    with assms(2) obtain u2 where "decode_uXXXX (drop 2 t) = Some u2" "\<not> is_low u2" by blast
    with single(2) show ?thesis by (rule scan_u_not_joined)
  next
    case False
    with single(2) show ?thesis by (rule scan_u_single)
  qed
  then show ?thesis by (simp only: single(1) append_assoc)
next
  case (pair h l)
  have "scanstring ([92, 117] @ fmt_04x h @ [92, 117] @ fmt_04x l @ t)
      = scons (0x10000 + ((h - 0xd800) * 1024 + (l - 0xdc00))) (scanstring t)"
    using pair(2,3) by (rule scan_u_joined)
  then show ?thesis by (simp only: pair(1) pair(4) [symmetric] append_assoc)
qed

lemma escape_char_low:
  assumes "is_low b"
  shows "escape_char b = [92, 117] @ fmt_04x b" and "b < 65536"
  using assms
  by (simp_all add: is_low_def escape_char_def ESCAPE_ASCII_def replace_def ESCAPE_DCT_def)

lemma head_not_low:
  assumes "b < 0x110000" "\<not> is_low b"
  shows "take 2 (escape_char b @ t) \<noteq> [92, 117]
         \<or> (\<exists>u2. decode_uXXXX (drop 2 (escape_char b @ t)) = Some u2 \<and> \<not> is_low u2)"
  using assms(1)
proof (cases rule: escape_char_forms)
  case plain
  then show ?thesis by simp
next
  case (short e)
  then show ?thesis by simp
next
  case single
  then have "decode_uXXXX (drop 2 (escape_char b @ t)) = Some b"
    by (simp add: decode_uXXXX_fmt)
  with assms(2) show ?thesis by blast
next
  case (pair h l)
  then have "h < 65536" by (simp add: is_high_def)
  then have "decode_uXXXX (drop 2 (escape_char b @ t)) = Some h"
    using pair by (simp add: decode_uXXXX_fmt)
  moreover have "\<not> is_low h" using pair by (simp add: is_high_def is_low_def)
  ultimately show ?thesis by blast
qed

lemma scanstring_escape_sub:
  assumes "str_ok s"
  shows "scanstring (escape_sub s @ 34 # rest) = Some (merge_surrogates s, rest)"
  using assms
proof (induction s rule: merge_surrogates.induct)
  case (1 a b tl)
  then have ok: "a < 0x110000" "b < 0x110000" "str_ok tl" "str_ok (b # tl)"
    by (simp_all add: str_ok_def)
  show ?case
  proof (cases "is_high a \<and> is_low b")
    case True
    then have a: "escape_char a = [92, 117] @ fmt_04x a"
      by (simp add: is_high_def escape_char_def ESCAPE_ASCII_def replace_def ESCAPE_DCT_def)
    have b: "escape_char b = [92, 117] @ fmt_04x b" using True by (simp add: escape_char_low)
    have "scanstring (escape_sub (a # b # tl) @ 34 # rest)
        = scanstring ([92, 117] @ fmt_04x a @ [92, 117] @ fmt_04x b @ (escape_sub tl @ 34 # rest))"
      by (simp add: escape_sub_Cons a b)
    also have "\<dots> = scons (0x10000 + ((a - 0xd800) * 1024 + (b - 0xdc00)))
        (scanstring (escape_sub tl @ 34 # rest))"
      using True by (intro scan_u_joined) simp_all
    also have "\<dots> = Some (merge_surrogates (a # b # tl), rest)"
      using True "1.IH"(1) ok by (simp add: scons_def)
    finally show ?thesis .
  next
    case False
    have "scanstring (escape_sub (a # b # tl) @ 34 # rest)
        = scanstring (escape_char a @ (escape_char b @ escape_sub tl @ 34 # rest))"
      by (simp add: escape_sub_Cons)
    also have "\<dots> = scons a (scanstring (escape_char b @ escape_sub tl @ 34 # rest))"
    proof (rule scan_char [OF ok(1)])
      assume "is_high a"
      with False have "\<not> is_low b" by simp
      from head_not_low [OF ok(2) this]
      show "take 2 (escape_char b @ escape_sub tl @ 34 # rest) \<noteq> [92, 117]
        \<or> (\<exists>u2. decode_uXXXX (drop 2 (escape_char b @ escape_sub tl @ 34 # rest)) = Some u2
              \<and> \<not> is_low u2)" .
    qed
    also have "\<dots> = scons a (scanstring (escape_sub (b # tl) @ 34 # rest))"
      by (simp add: escape_sub_Cons)
    also have "\<dots> = Some (merge_surrogates (a # b # tl), rest)"
      using False "1.IH"(2) ok by (auto simp add: scons_def)
    finally show ?thesis .
  qed
next
  case (2 a)
  then have ok: "a < 0x110000" by (simp add: str_ok_def)
  have "scanstring (escape_char a @ 34 # rest) = scons a (scanstring (34 # rest))"
    by (rule scan_char [OF ok]) simp
  then show ?case by (simp add: escape_sub_Cons escape_sub_Nil scons_def)
next
  case 3
  show ?case by (simp add: escape_sub_Nil)
qed

subsection \<open>The payload\<close>

lemma lit_simps:
  "lit ''sub'' = [115, 117, 98]"
  "lit ''name'' = [110, 97, 109, 101]"
  "lit ''tier'' = [116, 105, 101, 114]"
  "lit ''iss'' = [105, 115, 115]"
  "lit ''exp'' = [101, 120, 112]"
  "lit ''commercial'' = [99, 111, 109, 109, 101, 114, 99, 105, 97, 108]"
  "lit '','' = [44]"
  "lit '':'' = [58]"
  "lit ''.'' = [46]"
  "lit ''}'' = [125]"
  "lit ''\"'' = [34]"
  by (simp_all add: lit_def)

lemma escape_sub_keys:
  "escape_sub [115, 117, 98] = [115, 117, 98]"
  "escape_sub [110, 97, 109, 101] = [110, 97, 109, 101]"
  "escape_sub [116, 105, 101, 114] = [116, 105, 101, 114]"
  "escape_sub [105, 115, 115] = [105, 115, 115]"
  "escape_sub [101, 120, 112] = [101, 120, 112]"
  "escape_sub [99, 111, 109, 109, 101, 114, 99, 105, 97, 108]
     = [99, 111, 109, 109, 101, 114, 99, 105, 97, 108]"
  by (simp_all add: escape_sub_def ESCAPE_ASCII_def)

lemma json_dumps_eq_spec:
  "json_dumps (lit '','', lit '':'')
     [(lit ''sub'', em), (lit ''name'', nm), (lit ''tier'', lit ''commercial''),
      (lit ''iss'', iss), (lit ''exp'', ex)]
   = spec_payload em nm iss ex"
  by (simp add: json_dumps_def spec_payload_def json_string_def py_encode_basestring_ascii_def
        lit_simps escape_sub_keys)
     (simp add: lit_def)

lemma printable_lit: "list_all printable (lit s) = list_all (\<lambda>c. printable (of_char c)) s"
  by (simp add: lit_def list_all_iff)

lemma printable_spec_payload: "list_all printable (spec_payload em nm iss ex)"
  by (simp add: spec_payload_def json_string_def printable_escape_sub)
     (simp add: lit_def printable_def)

subsection \<open>Parsing the payload\<close>

lemma skip_ws_other:
  "c \<noteq> 32 \<Longrightarrow> c \<noteq> 9 \<Longrightarrow> c \<noteq> 10 \<Longrightarrow> c \<noteq> 13 \<Longrightarrow> skip_ws (c # s) = c # s"
  by (simp add: skip_ws_def)

lemma skip_ws_Nil: "skip_ws [] = []"
  by (simp add: skip_ws_def)

lemma members_last:
  assumes "str_ok k" "str_ok v"
  shows "members (34 # escape_sub k @ 34 # 58 # 34 # escape_sub v @ 34 # 125 # rest)
         = Some ([(merge_surrogates k, merge_surrogates v)], rest)"
  by (subst members.simps)
     (simp add: scanstring_escape_sub [OF assms(1)] scanstring_escape_sub [OF assms(2)]
        skip_ws_other)

lemma members_more:
  assumes "str_ok k" "str_ok v"
  shows "members (34 # escape_sub k @ 34 # 58 # 34 # escape_sub v @ 34 # 44 # 34 # cont)
         = (case members (34 # cont) of
              None \<Rightarrow> None
            | Some (ps, r) \<Rightarrow> Some ((merge_surrogates k, merge_surrogates v) # ps, r))"
  by (subst members.simps)
     (simp add: scanstring_escape_sub [OF assms(1)] scanstring_escape_sub [OF assms(2)]
        skip_ws_other)

lemma spec_payload_form:
  "spec_payload em nm iss ex =
     123 # 34 # escape_sub (lit ''sub'') @ 34 # 58 # 34 # escape_sub em @ 34 # 44 #
     34 # escape_sub (lit ''name'') @ 34 # 58 # 34 # escape_sub nm @ 34 # 44 #
     34 # escape_sub (lit ''tier'') @ 34 # 58 # 34 # escape_sub (lit ''commercial'') @ 34 # 44 #
     34 # escape_sub (lit ''iss'') @ 34 # 58 # 34 # escape_sub iss @ 34 # 44 #
     34 # escape_sub (lit ''exp'') @ 34 # 58 # 34 # escape_sub ex @ 34 # 125 # []"
  by (simp add: spec_payload_def json_string_def lit_simps escape_sub_keys)
     (simp add: lit_def)

lemma str_ok_lit: "str_ok (lit s)"
proof -
  have "(of_char c :: nat) < 1114112" for c :: char
    by (rule less_trans [OF of_char_lt_256]) simp
  then show ?thesis by (simp add: str_ok_def lit_def list_all_iff)
qed

lemma merge_surrogates_keys:
  "merge_surrogates (lit ''sub'') = lit ''sub''"
  "merge_surrogates (lit ''name'') = lit ''name''"
  "merge_surrogates (lit ''tier'') = lit ''tier''"
  "merge_surrogates (lit ''iss'') = lit ''iss''"
  "merge_surrogates (lit ''exp'') = lit ''exp''"
  "merge_surrogates (lit ''commercial'') = lit ''commercial''"
  by (simp_all add: lit_simps is_high_def)

lemma json_object_spec_payload:
  assumes "str_ok em" "str_ok nm" "str_ok iss" "str_ok ex"
  shows "json_object (spec_payload em nm iss ex) =
     Some [(lit ''sub'', merge_surrogates em), (lit ''name'', merge_surrogates nm),
           (lit ''tier'', lit ''commercial''), (lit ''iss'', merge_surrogates iss),
           (lit ''exp'', merge_surrogates ex)]"
proof -
  note k = str_ok_lit
  have m: "members (34 # escape_sub (lit ''sub'') @ 34 # 58 # 34 # escape_sub em @ 34 # 44 #
     34 # escape_sub (lit ''name'') @ 34 # 58 # 34 # escape_sub nm @ 34 # 44 #
     34 # escape_sub (lit ''tier'') @ 34 # 58 # 34 # escape_sub (lit ''commercial'') @ 34 # 44 #
     34 # escape_sub (lit ''iss'') @ 34 # 58 # 34 # escape_sub iss @ 34 # 44 #
     34 # escape_sub (lit ''exp'') @ 34 # 58 # 34 # escape_sub ex @ 34 # 125 # [])
     = Some ([(lit ''sub'', merge_surrogates em), (lit ''name'', merge_surrogates nm),
           (lit ''tier'', lit ''commercial''), (lit ''iss'', merge_surrogates iss),
           (lit ''exp'', merge_surrogates ex)], [])"
    by (simp only: members_more [OF k assms(1)] members_more [OF k assms(2)]
          members_more [OF k k] members_more [OF k assms(3)] members_last [OF k assms(4)]
          merge_surrogates_keys option.case prod.case)
  show ?thesis
    unfolding spec_payload_form json_object_def
    by (simp only: skip_ws_other skip_ws_Nil list.case m option.case prod.case if_True if_False
          simp_thms)
       (simp add: skip_ws_other skip_ws_Nil m)
qed

subsection \<open>What issue\_key returns\<close>

lemma py_encode_spec_payload:
  "py_encode (spec_payload em nm iss ex) = Inr (map char_of (spec_payload em nm iss ex))"
  by (intro py_encode_ascii printable_ascii printable_spec_payload)

lemma timedelta_cases:
  "timedelta n = (if \<bar>n\<bar> > 999999999 then Inl OverflowError else Inr n)"
  by (simp add: timedelta_def)

lemma issue_key_Inr:
  assumes "issue_key pkg today em nm yrs pem = Inr tok"
  obtains lp k expiry sg where "pkg = Some lp" "lp pem = Inr k"
    "\<bar>365 * yrs\<bar> \<le> 999999999" "date_add today (365 * yrs) = Inr expiry"
    "sign k (payload_bytes em nm today expiry) = Inr sg"
    "tok = lit ''FINCH-'' @ base64url_unpadded (payload_bytes em nm today expiry) @ lit ''.''
           @ base64url_unpadded sg"
  using assms
  unfolding issue_key_def json_dumps_eq_spec py_encode_spec_payload b64url_eq_spec
    payload_bytes_def timedelta_cases
  by (auto split: option.splits sum.splits if_splits)

lemma issue_key_InrI:
  assumes "lp pem = Inr k" "\<bar>365 * yrs\<bar> \<le> 999999999" "date_add today (365 * yrs) = Inr expiry"
    "sign k (payload_bytes em nm today expiry) = Inr sg"
  shows "issue_key (Some lp) today em nm yrs pem
         = Inr (lit ''FINCH-'' @ base64url_unpadded (payload_bytes em nm today expiry) @ lit ''.''
                @ base64url_unpadded sg)"
  using assms
  unfolding issue_key_def json_dumps_eq_spec py_encode_spec_payload b64url_eq_spec
    payload_bytes_def timedelta_cases
  by simp

lemma issue_key_overflow:
  assumes "lp pem = Inr k"
    "\<not> (0 < toordinal today + 365 * yrs \<and> toordinal today + 365 * yrs \<le> MAXORDINAL)"
  shows "issue_key (Some lp) today em nm yrs pem = Inl OverflowError"
  using assms date_add_Inl [of today "365 * yrs"]
  unfolding issue_key_def timedelta_cases
  by (simp split: sum.splits)

lemma in_range_timedelta:
  assumes "date_valid today" "0 < toordinal today + n" "toordinal today + n \<le> MAXORDINAL"
  shows "\<bar>n\<bar> \<le> 999999999"
  using assms toordinal_range [OF assms(1)] by (simp add: MAXORDINAL_def)

lemma issue_key_issued:
  assumes "lp pem = Inr k" and "signs k" and "date_valid today"
    and "0 < toordinal today + 365 * yrs" and "toordinal today + 365 * yrs \<le> MAXORDINAL"
  shows "\<exists>expiry sg.
           date_add today (365 * yrs) = Inr expiry
         \<and> sign k (payload_bytes em nm today expiry) = Inr sg
         \<and> issue_key (Some lp) today em nm yrs pem
             = Inr (lit ''FINCH-'' @ base64url_unpadded (payload_bytes em nm today expiry)
                    @ lit ''.'' @ base64url_unpadded sg)"
proof -
  obtain expiry where e: "date_add today (365 * yrs) = Inr expiry"
    using date_add_total [OF assms(4,5)] by blast
  obtain sg where s: "sign k (payload_bytes em nm today expiry) = Inr sg"
    using assms(2) by (auto simp add: signs_def)
  have "issue_key (Some lp) today em nm yrs pem
      = Inr (lit ''FINCH-'' @ base64url_unpadded (payload_bytes em nm today expiry) @ lit ''.''
             @ base64url_unpadded sg)"
    using assms(1) in_range_timedelta [OF assms(3,4,5)] e s by (rule issue_key_InrI)
  with e s show ?thesis by blast
qed

subsection \<open>What a token reads back as\<close>

lemma token_payload_issue:
  "token_payload (lit ''FINCH-'' @ base64url_unpadded p @ lit ''.'' @ base64url_unpadded s)
   = Some p"
  by (simp add: token_payload_def token_parts_join base64url_no_dot base64url_decode_encode)

lemma token_signature_issue:
  "token_signature (lit ''FINCH-'' @ base64url_unpadded p @ lit ''.'' @ base64url_unpadded s)
   = Some s"
  by (simp add: token_signature_def token_parts_join base64url_no_dot base64url_decode_encode)

lemma ascii_payload_bytes:
  "list_all (\<lambda>b. (of_char b :: nat) < 128) (payload_bytes em nm iss ex)"
proof -
  have a: "list_all (\<lambda>c. c < 128) (spec_payload em nm (isoformat iss) (isoformat ex))"
    by (intro printable_ascii printable_spec_payload)
  then have "\<forall>c \<in> set (spec_payload em nm (isoformat iss) (isoformat ex)). c < 128"
    by (simp add: list_all_iff)
  then show ?thesis
    by (auto simp add: payload_bytes_def list_all_iff)
qed

lemma printable_isoformat:
  assumes "date_valid d"
  shows "list_all printable (isoformat d)"
proof -
  have "year d \<le> 9999" "month d \<le> 12" "day d \<le> 31"
    using assms days_in_month_le_31 [of "month d" "year d"]
    by (simp_all add: date_valid_def MAXYEAR_def)
  then have "nat (year d) div 10 div 10 div 10 < 10" "nat (month d) div 10 < 10"
      "nat (day d) div 10 < 10"
    by simp_all
  moreover have m: "x mod 10 \<le> 78" for x :: nat
    using mod_less_divisor [of 10 x] by linarith
  ultimately show ?thesis
    by (simp add: isoformat_explicit [OF assms] printable_def m)
qed

lemma str_ok_printable: "list_all printable s \<Longrightarrow> str_ok s"
  by (induction s) (simp_all add: str_ok_def printable_def)

lemma merge_surrogates_printable: "list_all printable s \<Longrightarrow> merge_surrogates s = s"
  by (induction s rule: merge_surrogates.induct) (simp_all add: printable_def is_high_def)

lemma str_ok_isoformat: "date_valid d \<Longrightarrow> str_ok (isoformat d)"
  by (intro str_ok_printable printable_isoformat)

lemma no_surrogate_pair_isoformat: "date_valid d \<Longrightarrow> merge_surrogates (isoformat d) = isoformat d"
  by (intro merge_surrogates_printable printable_isoformat)

lemma json_loads_payload_bytes:
  assumes "str_ok em" "str_ok nm" "date_valid iss" "date_valid ex"
  shows "json_loads (payload_bytes em nm iss ex) =
     Some [(lit ''sub'', merge_surrogates em), (lit ''name'', merge_surrogates nm),
           (lit ''tier'', lit ''commercial''), (lit ''iss'', isoformat iss),
           (lit ''exp'', isoformat ex)]"
proof -
  have "map of_char (payload_bytes em nm iss ex) = spec_payload em nm (isoformat iss) (isoformat ex)"
    unfolding payload_bytes_def
    by (intro map_of_char_char_of printable_ascii printable_spec_payload)
  then show ?thesis
    using assms ascii_payload_bytes [of em nm iss ex]
    by (simp add: json_loads_def json_object_spec_payload str_ok_isoformat
          no_surrogate_pair_isoformat)
qed

lemma test_facts:
  "test_crypto ''PEM'' = Inr test_key"
  "signs test_key"
  "date_valid test_today"
  "toordinal test_today = 738886"
  by (simp_all add: test_crypto_def test_key_def signs_def test_today_def date_valid_def
        MINYEAR_def MAXYEAR_def days_in_month_def DAYS_IN_MONTH_def toordinal_def ymd2ord_def
        days_before_year_def days_before_month_def DAYS_BEFORE_MONTH_def)

subsection \<open>The claims\<close>

text \<open>
  C1 (as amended).  For every email, name and valid Ed25519 private key, and every
  \<open>years\<close> for which the date \<open>365 * years\<close> days from the issuance date lies within
  \<open>0001-01-01 .. 9999-12-31\<close>, \<open>issue_key\<close> returns exactly \<open>FINCH-\<close>, the unpadded
  base64url encoding of the UTF-8 bytes of the payload JSON (the fields \<open>sub\<close>, \<open>name\<close>,
  \<open>tier\<close>, \<open>iss\<close>, \<open>exp\<close> in this order, separators \<open>,\<close> and \<open>:\<close>, no white space,
  \<open>tier\<close> fixed to \<open>commercial\<close>), a dot, and the unpadded base64url encoding of the
  signature bytes.
\<close>

theorem issue_key_token_format:
  assumes "lp pem = Inr k" and "signs k" and "date_valid today"
    and "0 < toordinal today + 365 * yrs" and "toordinal today + 365 * yrs \<le> MAXORDINAL"
  shows "\<exists>expiry payload signature.
           date_add today (365 * yrs) = Inr expiry
         \<and> py_encode (spec_payload em nm (isoformat today) (isoformat expiry)) = Inr payload
         \<and> sign k payload = Inr signature
         \<and> issue_key (Some lp) today em nm yrs pem
             = Inr (lit ''FINCH-'' @ base64url_unpadded payload @ lit ''.''
                    @ base64url_unpadded signature)"
proof -
  from issue_key_issued [where lp = lp and pem = pem and em = em and nm = nm, OF assms]
  obtain expiry sg where
    e: "date_add today (365 * yrs) = Inr expiry"
    and s: "sign k (payload_bytes em nm today expiry) = Inr sg"
    and i: "issue_key (Some lp) today em nm yrs pem
        = Inr (lit ''FINCH-'' @ base64url_unpadded (payload_bytes em nm today expiry)
               @ lit ''.'' @ base64url_unpadded sg)"
    by blast
  have "py_encode (spec_payload em nm (isoformat today) (isoformat expiry))
      = Inr (payload_bytes em nm today expiry)"
    by (simp add: payload_bytes_def py_encode_spec_payload)
  with e s i show ?thesis by blast
qed

text \<open>The instance of C1 at the stand-in key, 2024-01-01 and one year.\<close>

theorem issue_key_token_format_witness:
  "test_crypto ''PEM'' = Inr test_key \<and> signs test_key \<and> date_valid test_today
   \<and> 0 < toordinal test_today + 365 * 1 \<and> toordinal test_today + 365 * 1 \<le> MAXORDINAL
   \<and> (\<exists>expiry payload signature.
           date_add test_today (365 * 1) = Inr expiry
         \<and> py_encode (spec_payload (lit ''a@b.c'') (lit ''Jane Doe'') (isoformat test_today)
               (isoformat expiry)) = Inr payload
         \<and> sign test_key payload = Inr signature
         \<and> issue_key (Some test_crypto) test_today (lit ''a@b.c'') (lit ''Jane Doe'') 1 ''PEM''
             = Inr (lit ''FINCH-'' @ base64url_unpadded payload @ lit ''.''
                    @ base64url_unpadded signature))"
proof -
  have r: "0 < toordinal test_today + 365 * 1" "toordinal test_today + 365 * 1 \<le> MAXORDINAL"
    by (simp_all add: test_facts MAXORDINAL_def)
  from issue_key_token_format [where lp = test_crypto and pem = "''PEM''" and k = test_key
      and today = test_today and yrs = 1 and em = "lit ''a@b.c''" and nm = "lit ''Jane Doe''",
      OF test_facts(1) test_facts(2) test_facts(3) r]
  show ?thesis using test_facts r by blast
qed

text \<open>
  C1 as stated fails: with a valid key and \<open>years = 10000\<close> the expiry date is past
  \<open>9999-12-31\<close>, and \<open>issue_key\<close> raises \<open>OverflowError\<close> instead of returning a token.
\<close>

theorem issue_key_token_format_counterexample:
  "test_crypto ''PEM'' = Inr test_key \<and> signs test_key \<and> date_valid test_today
   \<and> issue_key (Some test_crypto) test_today (lit ''a@b.c'') (lit ''Jane Doe'') 10000 ''PEM''
       = Inl OverflowError"
proof -
  have "issue_key (Some test_crypto) test_today (lit ''a@b.c'') (lit ''Jane Doe'') 10000 ''PEM''
      = Inl OverflowError"
    by (rule issue_key_overflow [where lp = test_crypto and pem = "''PEM''" and k = test_key,
          OF test_facts(1)])
       (simp add: test_facts MAXORDINAL_def)
  then show ?thesis using test_facts by blast
qed

text \<open>The token of that instance, computed.\<close>

lemma issue_key_example:
  "issue_key (Some test_crypto) test_today (lit ''a@b.c'') (lit ''Jane Doe'') 1 ''PEM''
   = Inr (lit ''FINCH-eyJzdWIiOiJhQGIuYyIsIm5hbWUiOiJKYW5lIERvZSIsInRpZXIiOiJjb21tZXJjaWFsIiwiaXNzIjoiMjAyNC0wMS0wMSIsImV4cCI6IjIwMjQtMTItMzEifQ.AQEBAQEBAQEBAQEBAQEBAQEBAQEBAQEBAQEBAQEBAQEBAQEBAQEBAQEBAQEBAQEBAQEBAQEBAQEBAQEBAQEBAQ'')"
  by code_simp

lemma token_claims_issue:
  assumes "issue_key pkg today em nm yrs pem = Inr tok"
    and "date_valid today" and "str_ok em" and "str_ok nm"
  obtains expiry where "date_add today (365 * yrs) = Inr expiry" "date_valid expiry"
    "toordinal expiry = toordinal today + 365 * yrs"
    "token_claims tok =
       Some [(lit ''sub'', merge_surrogates em), (lit ''name'', merge_surrogates nm),
             (lit ''tier'', lit ''commercial''), (lit ''iss'', isoformat today),
             (lit ''exp'', isoformat expiry)]"
proof -
  from assms(1) obtain lp k expiry sg where
    e: "date_add today (365 * yrs) = Inr expiry"
    and t: "tok = lit ''FINCH-'' @ base64url_unpadded (payload_bytes em nm today expiry)
              @ lit ''.'' @ base64url_unpadded sg"
    by (rule issue_key_Inr)
  from date_add_Inr [OF e]
  have v: "date_valid expiry" "toordinal expiry = toordinal today + 365 * yrs" by simp_all
  have "token_claims tok =
       Some [(lit ''sub'', merge_surrogates em), (lit ''name'', merge_surrogates nm),
             (lit ''tier'', lit ''commercial''), (lit ''iss'', isoformat today),
             (lit ''exp'', isoformat expiry)]"
    unfolding t token_claims_def token_payload_issue
    using json_loads_payload_bytes [OF assms(3) assms(4) assms(2) v(1)] by simp
  with e v show ?thesis by (rule that)
qed

lemma token_fields:
  assumes "token_claims tok =
       Some [(lit ''sub'', a), (lit ''name'', b), (lit ''tier'', c), (lit ''iss'', d),
             (lit ''exp'', e)]"
  shows "token_field tok ''sub'' = Some a" "token_field tok ''name'' = Some b"
    "token_field tok ''tier'' = Some c" "token_field tok ''iss'' = Some d"
    "token_field tok ''exp'' = Some e"
  by (simp_all add: token_field_def assms lit_simps)

lemma token_dates_issue:
  assumes "issue_key pkg today em nm yrs pem = Inr tok"
    and "date_valid today" and "str_ok em" and "str_ok nm"
  obtains ex where "token_date tok ''iss'' = Some today" "token_date tok ''exp'' = Some ex"
    "date_valid ex" "toordinal ex = toordinal today + 365 * yrs"
    "token_field tok ''iss'' = Some (isoformat today)"
    "token_field tok ''exp'' = Some (isoformat ex)"
proof -
  from assms obtain expiry where
    v: "date_valid expiry" "toordinal expiry = toordinal today + 365 * yrs"
    and c: "token_claims tok =
       Some [(lit ''sub'', merge_surrogates em), (lit ''name'', merge_surrogates nm),
             (lit ''tier'', lit ''commercial''), (lit ''iss'', isoformat today),
             (lit ''exp'', isoformat expiry)]"
    by (rule token_claims_issue)
  note f = token_fields [OF c]
  have "token_date tok ''iss'' = Some today"
    by (simp add: token_date_def f date_fromisoformat_isoformat assms(2))
  moreover have "token_date tok ''exp'' = Some expiry"
    by (simp add: token_date_def f date_fromisoformat_isoformat v)
  ultimately show ?thesis using v f(4,5) by (rule that)
qed

text \<open>
  C2.  For every non-negative \<open>years\<close>, the \<open>exp\<close> date in the payload of an issued token
  is the \<open>iss\<close> date plus exactly \<open>365 * years\<close> days, counted on the proleptic Gregorian
  ordinal (no leap-year or month adjustment); a token is issued whenever that date is
  not past \<open>9999-12-31\<close>; and for \<open>years = 0\<close> a token is issued and its \<open>exp\<close> field
  equals its \<open>iss\<close> field.
\<close>

theorem expiry_is_365_days_per_year:
  assumes "lp pem = Inr k" and "signs k" and "date_valid today"
    and "str_ok em" and "str_ok nm" and "0 \<le> yrs"
  shows "(\<forall>tok. issue_key (Some lp) today em nm yrs pem = Inr tok \<longrightarrow>
            (\<exists>ex. token_date tok ''iss'' = Some today \<and> token_date tok ''exp'' = Some ex
                  \<and> toordinal ex = toordinal today + 365 * yrs))
       \<and> (toordinal today + 365 * yrs \<le> MAXORDINAL \<longrightarrow>
            (\<exists>tok. issue_key (Some lp) today em nm yrs pem = Inr tok))
       \<and> (yrs = 0 \<longrightarrow>
            (\<exists>tok. issue_key (Some lp) today em nm yrs pem = Inr tok
                   \<and> token_field tok ''exp'' = token_field tok ''iss''))"
proof -
  have read: "\<exists>ex. token_date tok ''iss'' = Some today \<and> token_date tok ''exp'' = Some ex
      \<and> toordinal ex = toordinal today + 365 * yrs"
    if i: "issue_key (Some lp) today em nm yrs pem = Inr tok" for tok
    using token_dates_issue [OF i assms(3,4,5)] by metis
  have issued: "\<exists>tok. issue_key (Some lp) today em nm yrs pem = Inr tok"
    if "toordinal today + 365 * yrs \<le> MAXORDINAL"
  proof -
    have "0 < toordinal today + 365 * yrs"
      using toordinal_range(1) [OF assms(3)] assms(6) by simp
    from issue_key_issued [where lp = lp and pem = pem and em = em and nm = nm,
        OF assms(1,2,3) this that]
    show ?thesis by blast
  qed
  have zero: "\<exists>tok. issue_key (Some lp) today em nm yrs pem = Inr tok
      \<and> token_field tok ''exp'' = token_field tok ''iss''" if z: "yrs = 0"
  proof -
    have "toordinal today + 365 * yrs \<le> MAXORDINAL"
      using toordinal_range(2) [OF assms(3)] z by simp
    then obtain tok where i: "issue_key (Some lp) today em nm yrs pem = Inr tok"
      using issued by blast
    from token_dates_issue [OF i assms(3,4,5)] obtain ex where
      x: "date_valid ex" "toordinal ex = toordinal today + 365 * yrs"
        "token_field tok ''iss'' = Some (isoformat today)"
        "token_field tok ''exp'' = Some (isoformat ex)"
      by metis
    have "ex = today" using x(1) assms(3) x(2) z by (intro toordinal_inj) simp_all
    with x i show ?thesis by auto
  qed
  from read issued zero show ?thesis by blast
qed

text \<open>The instance of C2 at the stand-in key, 2024-01-01 and zero years.\<close>

theorem expiry_is_365_days_per_year_witness:
  "test_crypto ''PEM'' = Inr test_key \<and> signs test_key \<and> date_valid test_today
   \<and> str_ok (lit ''a@b.c'') \<and> str_ok (lit ''Jane Doe'') \<and> (0::int) \<le> 0
   \<and> (\<exists>tok. issue_key (Some test_crypto) test_today (lit ''a@b.c'') (lit ''Jane Doe'') 0 ''PEM''
              = Inr tok
            \<and> token_field tok ''exp'' = token_field tok ''iss''
            \<and> (\<exists>ex. token_date tok ''iss'' = Some test_today \<and> token_date tok ''exp'' = Some ex
                 \<and> toordinal ex = toordinal test_today + 365 * 0))"
proof -
  have z: "(0::int) \<le> 0" by simp
  from expiry_is_365_days_per_year [where lp = test_crypto and pem = "''PEM''"
      and k = test_key and today = test_today and yrs = 0
      and em = "lit ''a@b.c''" and nm = "lit ''Jane Doe''",
      OF test_facts(1) test_facts(2) test_facts(3) str_ok_lit str_ok_lit z]
  show ?thesis using test_facts str_ok_lit by (simp del: mult_zero_right) blast
qed

text \<open>
  C4 (as amended).  For every token produced by \<open>issue_key\<close> from an email and a name in
  which no code point of \<open>U+D800..U+DBFF\<close> is directly followed by one of
  \<open>U+DC00..U+DFFF\<close> (in particular, from any well-formed Unicode text), decoding the
  segment between \<open>FINCH-\<close> and the dot and parsing it as JSON yields exactly the five
  fields \<open>sub\<close>, \<open>name\<close>, \<open>tier\<close>, \<open>iss\<close>, \<open>exp\<close>, with the email and the name supplied,
  \<open>commercial\<close>, and the ISO forms of the issuance date and of the expiry date.
\<close>

theorem token_claims_roundtrip:
  assumes "issue_key pkg today em nm yrs pem = Inr tok"
    and "date_valid today" and "str_ok em" and "str_ok nm"
    and "no_surrogate_pair em" and "no_surrogate_pair nm"
  shows "\<exists>expiry. date_add today (365 * yrs) = Inr expiry
         \<and> token_claims tok =
             Some [(lit ''sub'', em), (lit ''name'', nm), (lit ''tier'', lit ''commercial''),
                   (lit ''iss'', isoformat today), (lit ''exp'', isoformat expiry)]"
proof -
  from assms(1,2,3,4) obtain expiry where
    "date_add today (365 * yrs) = Inr expiry"
    "token_claims tok =
       Some [(lit ''sub'', merge_surrogates em), (lit ''name'', merge_surrogates nm),
             (lit ''tier'', lit ''commercial''), (lit ''iss'', isoformat today),
             (lit ''exp'', isoformat expiry)]"
    by (rule token_claims_issue)
  then show ?thesis
    using assms(5,6) by (simp add: merge_surrogates_id)
qed

text \<open>The instance of C4 at the token computed above.\<close>

theorem token_claims_roundtrip_witness:
  "issue_key (Some test_crypto) test_today (lit ''a@b.c'') (lit ''Jane Doe'') 1 ''PEM''
     = Inr (lit ''FINCH-eyJzdWIiOiJhQGIuYyIsIm5hbWUiOiJKYW5lIERvZSIsInRpZXIiOiJjb21tZXJjaWFsIiwiaXNzIjoiMjAyNC0wMS0wMSIsImV4cCI6IjIwMjQtMTItMzEifQ.AQEBAQEBAQEBAQEBAQEBAQEBAQEBAQEBAQEBAQEBAQEBAQEBAQEBAQEBAQEBAQEBAQEBAQEBAQEBAQEBAQEBAQ'')
   \<and> date_valid test_today \<and> str_ok (lit ''a@b.c'') \<and> str_ok (lit ''Jane Doe'')
   \<and> no_surrogate_pair (lit ''a@b.c'') \<and> no_surrogate_pair (lit ''Jane Doe'')
   \<and> (\<exists>expiry. date_add test_today (365 * 1) = Inr expiry
         \<and> token_claims (lit ''FINCH-eyJzdWIiOiJhQGIuYyIsIm5hbWUiOiJKYW5lIERvZSIsInRpZXIiOiJjb21tZXJjaWFsIiwiaXNzIjoiMjAyNC0wMS0wMSIsImV4cCI6IjIwMjQtMTItMzEifQ.AQEBAQEBAQEBAQEBAQEBAQEBAQEBAQEBAQEBAQEBAQEBAQEBAQEBAQEBAQEBAQEBAQEBAQEBAQEBAQEBAQEBAQ'') =
             Some [(lit ''sub'', lit ''a@b.c''), (lit ''name'', lit ''Jane Doe''),
                   (lit ''tier'', lit ''commercial''),
                   (lit ''iss'', isoformat test_today), (lit ''exp'', isoformat expiry)])"
proof -
  have n: "no_surrogate_pair (lit ''a@b.c'')" "no_surrogate_pair (lit ''Jane Doe'')"
    by (simp_all add: lit_def is_high_def)
  from token_claims_roundtrip [OF issue_key_example test_facts(3) str_ok_lit str_ok_lit n]
  show ?thesis using issue_key_example test_facts(3) str_ok_lit n by blast
qed

text \<open>
  C4 as stated fails: the two-code-point email \<open>U+D83D U+DE00\<close> is serialized as
  the two escapes for \<open>d83d\<close> and \<open>de00\<close>, which a JSON parser reads as the single
  character \<open>U+1F600\<close>; the \<open>sub\<close> field read back is not the email supplied.
\<close>

theorem token_claims_roundtrip_counterexample:
  "\<not> isl (issue_key (Some test_crypto) test_today [0xd83d, 0xde00] (lit ''Jane Doe'') 1 ''PEM'')
   \<and> token_field
         (projr (issue_key (Some test_crypto) test_today [0xd83d, 0xde00] (lit ''Jane Doe'') 1 ''PEM''))
         ''sub'' = Some [0x1F600]
   \<and> token_field
         (projr (issue_key (Some test_crypto) test_today [0xd83d, 0xde00] (lit ''Jane Doe'') 1 ''PEM''))
         ''sub'' \<noteq> Some [0xd83d, 0xde00]"
proof -
  have r: "0 < toordinal test_today + 365 * 1" "toordinal test_today + 365 * 1 \<le> MAXORDINAL"
    by (simp_all add: test_facts MAXORDINAL_def)
  from issue_key_issued [where lp = test_crypto and pem = "''PEM''" and k = test_key
      and today = test_today and yrs = 1 and em = "[0xd83d, 0xde00]" and nm = "lit ''Jane Doe''",
      OF test_facts(1) test_facts(2) test_facts(3) r]
  obtain tok where
    i: "issue_key (Some test_crypto) test_today [0xd83d, 0xde00] (lit ''Jane Doe'') 1 ''PEM''
        = Inr tok"
    by auto
  have s: "str_ok [0xd83d, 0xde00]" by (simp add: str_ok_def)
  from i test_facts(3) s str_ok_lit obtain expiry where
    "token_claims tok =
       Some [(lit ''sub'', merge_surrogates [0xd83d, 0xde00]),
             (lit ''name'', merge_surrogates (lit ''Jane Doe'')),
             (lit ''tier'', lit ''commercial''), (lit ''iss'', isoformat test_today),
             (lit ''exp'', isoformat expiry)]"
    by (rule token_claims_issue)
  from token_fields(1) [OF this]
  have "token_field tok ''sub'' = Some [0x1F600]"
    by (simp add: is_high_def is_low_def)
  then show ?thesis by (simp add: i)
qed

subsection \<open>What main does\<close>



lemma main_key_error:
  "load_key w a = Inl (RuntimeError m) \<Longrightarrow>
   main w a = \<lparr>stdout = [], stderr = lit ''error: '' @ m @ [10], exit_status = 1\<rparr>"
  by (simp add: main_def)

lemma main_uncaught_load:
  "load_key w a = Inl e \<Longrightarrow> (\<And>m. e \<noteq> RuntimeError m) \<Longrightarrow> main w a = uncaught w e"
  by (cases e) (auto simp add: main_def)


lemma main_success:
  assumes "load_key w a = Inr (pem, src)"
    and "issue_key (cryptography w) (date_today w 0) (arg_email a) (arg_name a) (arg_years a) pem
         = Inr tok"
    and "date_add (date_today w 1) (365 * arg_years a) = Inr expiry"
  shows "main w a =
           \<lparr>stdout = tok @ [10],
            stderr = [10] @ lit ''# Licensee:  '' @ arg_name a @ lit '' <'' @ arg_email a
                     @ lit ''>'' @ [10]
                     @ lit ''# Expires:   '' @ isoformat expiry @ [10]
                     @ lit ''# Key from:  '' @ src @ [10],
            exit_status = 0\<rparr>"
proof -
  from assms(2) have "\<bar>365 * arg_years a\<bar> \<le> 999999999" by (rule issue_key_Inr)
  then have "timedelta (365 * arg_years a) = Inr (365 * arg_years a)"
    by (simp add: timedelta_def)
  with assms show ?thesis by (simp add: main_def)
qed

lemma load_key_file:
  assumes "arg_key a = Some p" "p \<noteq> []"
  shows "load_key w a =
     (if \<not> path_exists w (expanduser w p)
      then Inl (RuntimeError (lit ''Key file not found: '' @ expanduser w p))
      else case open_read w (expanduser w p) of Inl e \<Rightarrow> Inl e | Inr pem \<Rightarrow> Inr (pem, p))"
  using assms by (simp add: load_key_def load_private_key_from_file_def Let_def)

lemma main_unreadable_key:
  assumes "arg_key a = Some p" and "p \<noteq> []" and "path_exists w (expanduser w p)"
    and "open_read w (expanduser w p) = Inl (OSError m)"
  shows "main w a = \<lparr>stdout = [], stderr = traceback w (OSError m), exit_status = 1\<rparr>"
proof -
  have "load_key w a = Inl (OSError m)" using assms by (simp add: load_key_file)
  then have "main w a = uncaught w (OSError m)" by (rule main_uncaught_load) simp
  then show ?thesis by (simp add: uncaught_def)
qed

lemma test_world_simps:
  "expanduser test_world p = p"
  "path_exists test_world p = (p = lit ''key.pem'' \<or> p = lit ''bad.pem'' \<or> p = lit ''keys'')"
  "open_read test_world p = (if p = lit ''key.pem'' then Inr ''PEM''
                         else if p = lit ''bad.pem'' then Inr ''garbage''
                         else Inl (OSError (lit ''[Errno 21] Is a directory'')))"
  "subprocess_run test_world = Completed (lit ''PEM'' @ [10])"
  "cryptography test_world = Some test_crypto"
  "date_today test_world n = test_today"
  "exn_text test_world e = lit ''date value out of range''"
  "traceback test_world e = lit ''Traceback (most recent call last)''"
  by (simp_all add: test_world_def)

lemma test_args_simps:
  "arg_email (test_args k y) = lit ''a@b.c''" "arg_name (test_args k y) = lit ''Jane Doe''"
  "arg_years (test_args k y) = y" "arg_key (test_args k y) = k"
  by (simp_all add: test_args_def)

text \<open>
  C6, at a failing input.  With \<open>--key keys\<close>, where \<open>keys\<close> exists and is a directory,
  \<open>open\<close> raises \<open>IsADirectoryError\<close>, an \<open>OSError\<close> that the handler for \<open>RuntimeError\<close>
  does not catch: standard error carries the interpreter's traceback and no
  \<open>error: <message>\<close> line.  Standard output is empty and the status is 1.
\<close>

theorem main_unreadable_key_file:
  "main test_world (test_args (Some (lit ''keys'')) 1)
   = \<lparr>stdout = [], stderr = lit ''Traceback (most recent call last)'', exit_status = 1\<rparr>"
proof -
  have k: "lit ''keys'' \<noteq> []" "lit ''keys'' \<noteq> lit ''key.pem''" "lit ''keys'' \<noteq> lit ''bad.pem''"
    by (simp_all add: lit_def)
  have "load_key test_world (test_args (Some (lit ''keys'')) 1)
      = Inl (OSError (lit ''[Errno 21] Is a directory''))"
    using k by (simp add: load_key_file [where p = "lit ''keys''"] test_args_simps test_world_simps)
  then have "main test_world (test_args (Some (lit ''keys'')) 1)
      = uncaught test_world (OSError (lit ''[Errno 21] Is a directory''))"
    by (rule main_uncaught_load) simp
  then show ?thesis by (simp add: uncaught_def test_world_simps)
qed

text \<open>
  C7 (as amended).  For every non-empty path supplied via \<open>--key\<close> that does not exist
  after the expansion of \<open>~\<close>, the process exits with a non-zero status, reports the
  error on standard error in a message that starts with \<open>error: Key file not found:\<close>,
  and prints nothing to standard output.
\<close>

theorem missing_key_file_reported:
  assumes "arg_key a = Some p" and "p \<noteq> []" and "\<not> path_exists w (expanduser w p)"
  shows "exit_status (main w a) \<noteq> 0
       \<and> (\<exists>rest. stderr (main w a) = lit ''error: Key file not found: '' @ rest)
       \<and> stdout (main w a) = []"
proof -
  have "load_key w a = Inl (RuntimeError (lit ''Key file not found: '' @ expanduser w p))"
    using assms by (simp add: load_key_file)
  then have "main w a = \<lparr>stdout = [],
      stderr = lit ''error: '' @ (lit ''Key file not found: '' @ expanduser w p) @ [10],
      exit_status = 1\<rparr>"
    by (rule main_key_error)
  then show ?thesis by (simp add: lit_def)
qed

text \<open>The instance of C7 at the path \<open>missing.pem\<close>.\<close>

theorem missing_key_file_reported_witness:
  "arg_key (test_args (Some (lit ''missing.pem'')) 1) = Some (lit ''missing.pem'')
   \<and> lit ''missing.pem'' \<noteq> []
   \<and> \<not> path_exists test_world (expanduser test_world (lit ''missing.pem''))
   \<and> exit_status (main test_world (test_args (Some (lit ''missing.pem'')) 1)) \<noteq> 0
   \<and> (\<exists>rest. stderr (main test_world (test_args (Some (lit ''missing.pem'')) 1))
               = lit ''error: Key file not found: '' @ rest)
   \<and> stdout (main test_world (test_args (Some (lit ''missing.pem'')) 1)) = []"
proof -
  have h1: "arg_key (test_args (Some (lit ''missing.pem'')) 1) = Some (lit ''missing.pem'')"
    by (simp add: test_args_simps)
  have h2: "lit ''missing.pem'' \<noteq> []" by (simp add: lit_def)
  have h3: "\<not> path_exists test_world (expanduser test_world (lit ''missing.pem''))"
    by (simp add: test_world_simps) (simp add: lit_def)
  from missing_key_file_reported [OF h1 h2 h3] show ?thesis using h1 h2 h3 by blast
qed

text \<open>
  C7 as stated fails: the empty string is a path that does not exist, but
  \<open>if args.key:\<close> treats it as absent and the key comes from 1Password; the run succeeds
  and prints a token.
\<close>

theorem missing_key_file_counterexample:
  "arg_key (test_args (Some []) 1) = Some []
   \<and> \<not> path_exists test_world (expanduser test_world [])
   \<and> exit_status (main test_world (test_args (Some []) 1)) = 0
   \<and> stdout (main test_world (test_args (Some []) 1))
       = lit ''FINCH-eyJzdWIiOiJhQGIuYyIsIm5hbWUiOiJKYW5lIERvZSIsInRpZXIiOiJjb21tZXJjaWFsIiwiaXNzIjoiMjAyNC0wMS0wMSIsImV4cCI6IjIwMjQtMTItMzEifQ.AQEBAQEBAQEBAQEBAQEBAQEBAQEBAQEBAQEBAQEBAQEBAQEBAQEBAQEBAQEBAQEBAQEBAQEBAQEBAQEBAQEBAQ''
         @ [10]"
proof -
  have s: "strip (lit ''PEM'' @ [10]) = lit ''PEM''"
    by (simp add: strip_def lit_def isspace_def)
  have e: "py_encode (lit ''PEM'') = Inr ''PEM''"
    by code_simp
  have n: "lit ''PEM'' \<noteq> []" by (simp add: lit_def)
  have l: "load_key test_world (test_args (Some []) 1) = Inr (''PEM'', lit ''1Password'')"
    using n
    by (simp add: load_key_def test_args_simps load_private_key_from_1password_def
          test_world_simps s e Let_def)
  have r: "0 < toordinal test_today + 365 * 1" "toordinal test_today + 365 * 1 \<le> MAXORDINAL"
    by (simp_all add: test_facts MAXORDINAL_def)
  obtain expiry where x: "date_add test_today 365 = Inr expiry"
    using date_add_total [OF r] by auto
  have "main test_world (test_args (Some []) 1) =
           \<lparr>stdout = lit ''FINCH-eyJzdWIiOiJhQGIuYyIsIm5hbWUiOiJKYW5lIERvZSIsInRpZXIiOiJjb21tZXJjaWFsIiwiaXNzIjoiMjAyNC0wMS0wMSIsImV4cCI6IjIwMjQtMTItMzEifQ.AQEBAQEBAQEBAQEBAQEBAQEBAQEBAQEBAQEBAQEBAQEBAQEBAQEBAQEBAQEBAQEBAQEBAQEBAQEBAQEBAQEBAQ'' @ [10],
            stderr = [10] @ lit ''# Licensee:  '' @ arg_name (test_args (Some []) 1) @ lit '' <''
                     @ arg_email (test_args (Some []) 1)
                     @ lit ''>'' @ [10]
                     @ lit ''# Expires:   '' @ isoformat expiry @ [10]
                     @ lit ''# Key from:  '' @ lit ''1Password'' @ [10],
            exit_status = 0\<rparr>"
    by (rule main_success [OF l])
       (simp_all add: test_world_simps test_args_simps issue_key_example x)
  moreover have "\<not> path_exists test_world (expanduser test_world [])"
    by (simp add: test_world_simps) (simp add: lit_def)
  ultimately show ?thesis
    by (simp add: test_args_simps)
qed

lemma main_stdout_iff_success:
  "(stdout (main w a) \<noteq> []) = (exit_status (main w a) = 0)"
  by (auto simp add: main_def uncaught_def split: sum.splits exn.splits prod.splits)

lemma load_key_test_world:
  "load_key test_world (test_args (Some (lit ''key.pem'')) y) = Inr (''PEM'', lit ''key.pem'')"
  "load_key test_world (test_args (Some (lit ''bad.pem'')) y) = Inr (''garbage'', lit ''bad.pem'')"
proof -
  have n: "lit ''key.pem'' \<noteq> []" "lit ''bad.pem'' \<noteq> []" "lit ''bad.pem'' \<noteq> lit ''key.pem''"
    by (simp_all add: lit_def)
  show "load_key test_world (test_args (Some (lit ''key.pem'')) y) = Inr (''PEM'', lit ''key.pem'')"
    using n by (simp add: load_key_file [where p = "lit ''key.pem''"] test_args_simps test_world_simps)
  show "load_key test_world (test_args (Some (lit ''bad.pem'')) y) = Inr (''garbage'', lit ''bad.pem'')"
    using n by (simp add: load_key_file [where p = "lit ''bad.pem''"] test_args_simps test_world_simps)
qed



text \<open>
  C9 (as amended).  Neither the command line nor \<open>issue_key\<close> validates \<open>years\<close>: for
  every negative \<open>years\<close> for which the date \<open>365 * |years|\<close> days before the issuance
  date is not before \<open>0001-01-01\<close>, \<open>issue_key\<close> returns a token whose \<open>exp\<close> date is
  exactly \<open>365 * |years|\<close> days earlier than its \<open>iss\<close> date, and the process prints that
  token and exits with status 0.
\<close>

theorem negative_years_accepted:
  assumes "cryptography w = Some lp" and "load_key w a = Inr (pem, src)"
    and "lp pem = Inr k" and "signs k"
    and "date_today w 0 = today" and "date_today w 1 = today" and "date_valid today"
    and "str_ok (arg_email a)" and "str_ok (arg_name a)"
    and "arg_years a < 0" and "0 < toordinal today + 365 * arg_years a"
  shows "\<exists>tok ex.
           issue_key (Some lp) today (arg_email a) (arg_name a) (arg_years a) pem = Inr tok
         \<and> token_date tok ''iss'' = Some today \<and> token_date tok ''exp'' = Some ex
         \<and> toordinal ex = toordinal today - 365 * \<bar>arg_years a\<bar>
         \<and> toordinal ex < toordinal today
         \<and> stdout (main w a) = tok @ [10] \<and> exit_status (main w a) = 0"
proof -
  have u: "toordinal today + 365 * arg_years a \<le> MAXORDINAL"
    using toordinal_range(2) [OF assms(7)] assms(10) by simp
  from issue_key_issued [where lp = lp and pem = pem and em = "arg_email a" and nm = "arg_name a",
      OF assms(3,4,7,11) u]
  obtain expiry tok where
    e: "date_add today (365 * arg_years a) = Inr expiry"
    and i: "issue_key (Some lp) today (arg_email a) (arg_name a) (arg_years a) pem = Inr tok"
    by blast
  from token_dates_issue [OF i assms(7,8,9)] obtain ex where
    x: "token_date tok ''iss'' = Some today" "token_date tok ''exp'' = Some ex"
      "toordinal ex = toordinal today + 365 * arg_years a"
    by metis
  have "main w a =
           \<lparr>stdout = tok @ [10],
            stderr = [10] @ lit ''# Licensee:  '' @ arg_name a @ lit '' <'' @ arg_email a
                     @ lit ''>'' @ [10]
                     @ lit ''# Expires:   '' @ isoformat expiry @ [10]
                     @ lit ''# Key from:  '' @ src @ [10],
            exit_status = 0\<rparr>"
    using assms(2) i e assms(6) by (intro main_success) (simp_all add: assms(1,5))
  then have m: "stdout (main w a) = tok @ [10]" "exit_status (main w a) = 0" by simp_all
  have "toordinal ex = toordinal today - 365 * \<bar>arg_years a\<bar>" "toordinal ex < toordinal today"
    using x(3) assms(10) by simp_all
  with i x m show ?thesis by blast
qed

text \<open>The instance of C9 at the key file \<open>key.pem\<close>, 2024-01-01 and minus one year.\<close>

theorem negative_years_accepted_witness:
  "cryptography test_world = Some test_crypto
   \<and> load_key test_world (test_args (Some (lit ''key.pem'')) (- 1)) = Inr (''PEM'', lit ''key.pem'')
   \<and> test_crypto ''PEM'' = Inr test_key \<and> signs test_key
   \<and> date_today test_world 0 = test_today \<and> date_today test_world 1 = test_today
   \<and> date_valid test_today
   \<and> str_ok (arg_email (test_args (Some (lit ''key.pem'')) (- 1)))
   \<and> str_ok (arg_name (test_args (Some (lit ''key.pem'')) (- 1)))
   \<and> arg_years (test_args (Some (lit ''key.pem'')) (- 1)) < 0
   \<and> 0 < toordinal test_today + 365 * arg_years (test_args (Some (lit ''key.pem'')) (- 1))
   \<and> (\<exists>tok ex.
           issue_key (Some test_crypto) test_today
             (arg_email (test_args (Some (lit ''key.pem'')) (- 1)))
             (arg_name (test_args (Some (lit ''key.pem'')) (- 1)))
             (arg_years (test_args (Some (lit ''key.pem'')) (- 1))) ''PEM'' = Inr tok
         \<and> token_date tok ''iss'' = Some test_today \<and> token_date tok ''exp'' = Some ex
         \<and> toordinal ex = toordinal test_today
              - 365 * \<bar>arg_years (test_args (Some (lit ''key.pem'')) (- 1))\<bar>
         \<and> toordinal ex < toordinal test_today
         \<and> stdout (main test_world (test_args (Some (lit ''key.pem'')) (- 1))) = tok @ [10]
         \<and> exit_status (main test_world (test_args (Some (lit ''key.pem'')) (- 1))) = 0)"
proof -
  let ?a = "test_args (Some (lit ''key.pem'')) (- 1)"
  have h8: "str_ok (arg_email ?a)" and h9: "str_ok (arg_name ?a)"
    by (simp_all add: test_args_simps str_ok_lit)
  have h10: "arg_years ?a < 0" by (simp add: test_args_simps)
  have h11: "0 < toordinal test_today + 365 * arg_years ?a"
    by (simp add: test_args_simps test_facts)
  note h = test_world_simps(5) load_key_test_world(1) [of "- 1"] test_facts(1) test_facts(2)
    test_world_simps(6) [of 0] test_world_simps(6) [of 1] test_facts(3) h8 h9 h10 h11
  from negative_years_accepted [where w = test_world and a = ?a and lp = test_crypto
      and pem = "''PEM''" and k = test_key and today = test_today and src = "lit ''key.pem''",
      OF h]
  show ?thesis using h by blast
qed

text \<open>
  C9 as stated fails: with \<open>years = -10000\<close> the expiry date would lie before
  \<open>0001-01-01\<close>, and \<open>issue_key\<close> raises \<open>OverflowError\<close> instead of returning a token.
\<close>

theorem negative_years_accepted_counterexample:
  "test_crypto ''PEM'' = Inr test_key \<and> signs test_key \<and> date_valid test_today
   \<and> issue_key (Some test_crypto) test_today (lit ''a@b.c'') (lit ''Jane Doe'') (- 10000) ''PEM''
       = Inl OverflowError"
proof -
  have "issue_key (Some test_crypto) test_today (lit ''a@b.c'') (lit ''Jane Doe'') (- 10000) ''PEM''
      = Inl OverflowError"
    by (rule issue_key_overflow [where lp = test_crypto and pem = "''PEM''" and k = test_key,
          OF test_facts(1)])
       (simp add: test_facts MAXORDINAL_def)
  then show ?thesis using test_facts by blast
qed

subsection \<open>The escapes of the JSON text\<close>

text \<open>
  The four digits that \<open>'\\u{0:04x}'.format\<close> writes are the hexadecimal digits of the
  value, so the replacement of a character outside printable ASCII is the escape
  sequence of the specification; above \<open>U+FFFF\<close> it is the pair of escapes of the two
  UTF-16 surrogates.
\<close>

lemma hex_table: "map hex_char [0..<16] = lit ''0123456789abcdef''"
  by code_simp

lemma hex_table_nth: "d < 16 \<Longrightarrow> lit ''0123456789abcdef'' ! d = hex_char d"
proof -
  assume d: "d < 16"
  have "lit ''0123456789abcdef'' ! d = map hex_char [0..<16] ! d" by (simp only: hex_table)
  also have "\<dots> = hex_char d" using d by (simp only: nth_map_upt) simp
  finally show ?thesis .
qed

lemma fmt_04x_hex4:
  assumes "n < 65536"
  shows "fmt_04x n = hex4 n"
proof -
  have a: "n div 16 div 16 div 16 = n div 4096" by (simp add: div_mult2_eq)
  have b: "n div 16 div 16 = n div 256" by (simp add: div_mult2_eq)
  have b': "n div 256 div 16 = n div 4096" by (simp add: div_mult2_eq)
  have c: "n div 4096 < 16" using assms by simp
  have d: "n div 4096 mod 16 = n div 4096" using c by simp
  show ?thesis
    unfolding fmt_04x_explicit [OF assms] hex4_def
    by (simp add: b b' d hex_table_nth)
qed

lemma escape_sub_concat: "escape_sub s = concat (map (\<lambda>c. escape_sub [c]) s)"
  by (simp add: escape_sub_def)

lemma escape_sub_bmp:
  assumes "126 < c" "c < 0x10000"
  shows "escape_sub [c] = uXXXX c"
proof -
  have "escape_sub [c] = [92, 117] @ fmt_04x c"
    using assms by (simp add: escape_sub_def ESCAPE_ASCII_def replace_def ESCAPE_DCT_def)
  also have "fmt_04x c = hex4 c" using assms(2) by (simp add: fmt_04x_hex4)
  finally show ?thesis by (simp add: uXXXX_def)
qed

lemma escape_sub_astral:
  assumes "0x10000 \<le> c" "c < 0x110000"
  shows "escape_sub [c] = uXXXX (0xd800 + (c - 0x10000) div 1024)
                          @ uXXXX (0xdc00 + (c - 0x10000) mod 1024)"
proof -
  define h where "h = 0xd800 + (c - 0x10000) div 1024"
  define l where "l = 0xdc00 + (c - 0x10000) mod 1024"
  have hl: "h < 65536" "l < 65536" using assms by (simp_all add: h_def l_def)
  have "escape_sub [c] = [92, 117] @ fmt_04x h @ [92, 117] @ fmt_04x l"
    using assms surrogate_pair_of [OF assms]
    by (simp add: escape_sub_def ESCAPE_ASCII_def replace_def ESCAPE_DCT_def Let_def h_def l_def)
  also have "fmt_04x h = hex4 h" using hl by (simp add: fmt_04x_hex4)
  also have "fmt_04x l = hex4 l" using hl by (simp add: fmt_04x_hex4)
  finally show ?thesis by (simp add: uXXXX_def h_def l_def)
qed

text \<open>
  A token for a subject and a name outside ASCII: \<open>jos\<close>, \<open>U+00E9\<close>, \<open>@b.c\<close> and the
  single character \<open>U+1F600\<close>, issued on 2024-01-01 for one year with the stand-in key.
\<close>

lemma example_expiry:
  "date_add test_today (365 * 1) = Inr \<lparr>year = 2024, month = 12, day = 31\<rparr>"
  by code_simp

lemma example_isoformat:
  "isoformat test_today = lit ''2024-01-01''"
  "isoformat \<lparr>year = 2024, month = 12, day = 31\<rparr> = lit ''2024-12-31''"
  by code_simp+

lemma example_escapes:
  "escape_sub (lit ''jos'' @ [233] @ lit ''@b.c'') = lit ''jos'' @ [92, 117, 48, 48, 101, 57] @ lit ''@b.c''"
  "escape_sub [0x1F600] = [92, 117, 100, 56, 51, 100, 92, 117, 100, 101, 48, 48]"
proof -
  have e1: "escape_sub [233] = [92, 117, 48, 48, 101, 57]"
    by (simp add: escape_sub_bmp uXXXX_def hex4_def lit_def)
  have p: "escape_sub [c] = [c]" if "c \<in> set (lit ''jos@b.c'')" for c
    using that by (auto simp add: lit_def escape_sub_def ESCAPE_ASCII_def)
  show "escape_sub (lit ''jos'' @ [233] @ lit ''@b.c'') = lit ''jos'' @ [92, 117, 48, 48, 101, 57] @ lit ''@b.c''"
    by (subst escape_sub_concat) (simp add: e1 p lit_def)
  show "escape_sub [0x1F600] = [92, 117, 100, 56, 51, 100, 92, 117, 100, 101, 48, 48]"
    by (simp add: escape_sub_astral uXXXX_def hex4_def lit_def)
qed

lemma example_payload:
  "payload_bytes (lit ''jos'' @ [233] @ lit ''@b.c'') [0x1F600] test_today \<lparr>year = 2024, month = 12, day = 31\<rparr>
   = ''{\"sub\":\"jos'' @ [CHR 0x5C] @ ''u00e9@b.c\",\"name\":\"'' @ [CHR 0x5C] @ ''ud83d'' @ [CHR 0x5C] @ ''ude00\",\"tier\":\"commercial\",\"iss\":\"2024-01-01\",\"exp\":\"2024-12-31\"}''"
  unfolding payload_bytes_def spec_payload_def json_string_def example_isoformat example_escapes
  by code_simp

lemma example_base64url:
  "base64url_unpadded (''{\"sub\":\"jos'' @ [CHR 0x5C] @ ''u00e9@b.c\",\"name\":\"'' @ [CHR 0x5C] @ ''ud83d'' @ [CHR 0x5C] @ ''ude00\",\"tier\":\"commercial\",\"iss\":\"2024-01-01\",\"exp\":\"2024-12-31\"}'')
   = lit ''eyJzdWIiOiJqb3NcdTAwZTlAYi5jIiwibmFtZSI6Ilx1ZDgzZFx1ZGUwMCIsInRpZXIiOiJjb21tZXJjaWFsIiwiaXNzIjoiMjAyNC0wMS0wMSIsImV4cCI6IjIwMjQtMTItMzEifQ''"
  "base64url_unpadded (replicate 64 (CHR 0x01))
   = lit ''AQEBAQEBAQEBAQEBAQEBAQEBAQEBAQEBAQEBAQEBAQEBAQEBAQEBAQEBAQEBAQEBAQEBAQEBAQEBAQEBAQEBAQ''"
  by code_simp+

lemma example_token:
  "lit ''FINCH-eyJzdWIiOiJqb3NcdTAwZTlAYi5jIiwibmFtZSI6Ilx1ZDgzZFx1ZGUwMCIsInRpZXIiOiJjb21tZXJjaWFsIiwiaXNzIjoiMjAyNC0wMS0wMSIsImV4cCI6IjIwMjQtMTItMzEifQ.AQEBAQEBAQEBAQEBAQEBAQEBAQEBAQEBAQEBAQEBAQEBAQEBAQEBAQEBAQEBAQEBAQEBAQEBAQEBAQEBAQEBAQ''
   = lit ''FINCH-'' @ lit ''eyJzdWIiOiJqb3NcdTAwZTlAYi5jIiwibmFtZSI6Ilx1ZDgzZFx1ZGUwMCIsInRpZXIiOiJjb21tZXJjaWFsIiwiaXNzIjoiMjAyNC0wMS0wMSIsImV4cCI6IjIwMjQtMTItMzEifQ''
     @ lit ''.'' @ lit ''AQEBAQEBAQEBAQEBAQEBAQEBAQEBAQEBAQEBAQEBAQEBAQEBAQEBAQEBAQEBAQEBAQEBAQEBAQEBAQEBAQEBAQ''"
  by (simp add: lit_def)

lemma issue_key_example_escaped:
  "issue_key (Some test_crypto) test_today (lit ''jos'' @ [233] @ lit ''@b.c'') [0x1F600] 1 ''PEM''
   = Inr (lit ''FINCH-eyJzdWIiOiJqb3NcdTAwZTlAYi5jIiwibmFtZSI6Ilx1ZDgzZFx1ZGUwMCIsInRpZXIiOiJjb21tZXJjaWFsIiwiaXNzIjoiMjAyNC0wMS0wMSIsImV4cCI6IjIwMjQtMTItMzEifQ.AQEBAQEBAQEBAQEBAQEBAQEBAQEBAQEBAQEBAQEBAQEBAQEBAQEBAQEBAQEBAQEBAQEBAQEBAQEBAQEBAQEBAQ'')"
proof -
  have s: "sign test_key (payload_bytes (lit ''jos'' @ [233] @ lit ''@b.c'') [0x1F600] test_today
       \<lparr>year = 2024, month = 12, day = 31\<rparr>) = Inr (replicate 64 (CHR 0x01))"
    by (simp add: test_key_def)
  have y: "\<bar>365 * (1::int)\<bar> \<le> 999999999" by simp
  from issue_key_InrI [where lp = test_crypto and pem = "''PEM''", OF test_facts(1) y
      example_expiry s]
  show ?thesis
    by (simp only: example_payload example_base64url example_token)
qed

lemma token_payload_example_escaped:
  "token_payload (lit ''FINCH-eyJzdWIiOiJqb3NcdTAwZTlAYi5jIiwibmFtZSI6Ilx1ZDgzZFx1ZGUwMCIsInRpZXIiOiJjb21tZXJjaWFsIiwiaXNzIjoiMjAyNC0wMS0wMSIsImV4cCI6IjIwMjQtMTItMzEifQ.AQEBAQEBAQEBAQEBAQEBAQEBAQEBAQEBAQEBAQEBAQEBAQEBAQEBAQEBAQEBAQEBAQEBAQEBAQEBAQEBAQEBAQ'')
   = Some (''{\"sub\":\"jos'' @ [CHR 0x5C] @ ''u00e9@b.c\",\"name\":\"'' @ [CHR 0x5C] @ ''ud83d'' @ [CHR 0x5C] @ ''ude00\",\"tier\":\"commercial\",\"iss\":\"2024-01-01\",\"exp\":\"2024-12-31\"}'')"
  unfolding example_token example_base64url [symmetric]
  by (rule token_payload_issue)

text \<open>
  C10.  For every token produced by \<open>issue_key\<close>, the payload embedded in the token is the
  byte string that was signed, and every byte of it is ASCII.  The JSON serializer
  writes a string character by character; a character above \<open>~\<close> (every non-ASCII
  character) is written as the escape sequence \<open>\uXXXX\<close> of its code point, and a
  character above \<open>U+FFFF\<close> as the two escape sequences of its UTF-16 surrogates, so no
  multi-byte UTF-8 sequence occurs.
\<close>

theorem payload_is_ascii:
  assumes "issue_key pkg today em nm yrs pem = Inr tok"
  shows "(\<exists>lp k expiry payload signature.
            pkg = Some lp \<and> lp pem = Inr k \<and> date_add today (365 * yrs) = Inr expiry
          \<and> py_encode (spec_payload em nm (isoformat today) (isoformat expiry)) = Inr payload
          \<and> sign k payload = Inr signature
          \<and> token_payload tok = Some payload \<and> token_signature tok = Some signature
          \<and> list_all (\<lambda>b. (of_char b :: nat) < 128) payload)
       \<and> (\<forall>s. escape_sub s = concat (map (\<lambda>c. escape_sub [c]) s))
       \<and> (\<forall>c. 126 < c \<longrightarrow> c < 0x10000 \<longrightarrow> escape_sub [c] = uXXXX c)
       \<and> (\<forall>c. 0x10000 \<le> c \<longrightarrow> c < 0x110000 \<longrightarrow>
             escape_sub [c] = uXXXX (0xd800 + (c - 0x10000) div 1024)
                              @ uXXXX (0xdc00 + (c - 0x10000) mod 1024))"
proof -
  from assms obtain lp k expiry sg where
    p: "pkg = Some lp" "lp pem = Inr k" "date_add today (365 * yrs) = Inr expiry"
      "sign k (payload_bytes em nm today expiry) = Inr sg"
    and t: "tok = lit ''FINCH-'' @ base64url_unpadded (payload_bytes em nm today expiry)
              @ lit ''.'' @ base64url_unpadded sg"
    by (rule issue_key_Inr)
  have e: "py_encode (spec_payload em nm (isoformat today) (isoformat expiry))
      = Inr (payload_bytes em nm today expiry)"
    by (simp add: payload_bytes_def py_encode_spec_payload)
  have r: "token_payload tok = Some (payload_bytes em nm today expiry)"
      "token_signature tok = Some sg"
    unfolding t by (rule token_payload_issue, rule token_signature_issue)
  have first: "\<exists>lp k expiry payload signature.
            pkg = Some lp \<and> lp pem = Inr k \<and> date_add today (365 * yrs) = Inr expiry
          \<and> py_encode (spec_payload em nm (isoformat today) (isoformat expiry)) = Inr payload
          \<and> sign k payload = Inr signature
          \<and> token_payload tok = Some payload \<and> token_signature tok = Some signature
          \<and> list_all (\<lambda>b. (of_char b :: nat) < 128) payload"
    using p e r ascii_payload_bytes [of em nm today expiry] by blast
  from first escape_sub_concat escape_sub_bmp escape_sub_astral show ?thesis by blast
qed

text \<open>
  The instance of C10 at the token computed above: the payload read from the token is
  the ASCII text with the escapes of \<open>U+00E9\<close> and of \<open>U+1F600\<close> in it.
\<close>

theorem payload_is_ascii_witness:
  "issue_key (Some test_crypto) test_today (lit ''jos'' @ [233] @ lit ''@b.c'') [0x1F600] 1 ''PEM''
     = Inr (lit ''FINCH-eyJzdWIiOiJqb3NcdTAwZTlAYi5jIiwibmFtZSI6Ilx1ZDgzZFx1ZGUwMCIsInRpZXIiOiJjb21tZXJjaWFsIiwiaXNzIjoiMjAyNC0wMS0wMSIsImV4cCI6IjIwMjQtMTItMzEifQ.AQEBAQEBAQEBAQEBAQEBAQEBAQEBAQEBAQEBAQEBAQEBAQEBAQEBAQEBAQEBAQEBAQEBAQEBAQEBAQEBAQEBAQ'')
   \<and> token_payload (lit ''FINCH-eyJzdWIiOiJqb3NcdTAwZTlAYi5jIiwibmFtZSI6Ilx1ZDgzZFx1ZGUwMCIsInRpZXIiOiJjb21tZXJjaWFsIiwiaXNzIjoiMjAyNC0wMS0wMSIsImV4cCI6IjIwMjQtMTItMzEifQ.AQEBAQEBAQEBAQEBAQEBAQEBAQEBAQEBAQEBAQEBAQEBAQEBAQEBAQEBAQEBAQEBAQEBAQEBAQEBAQEBAQEBAQ'')
       = Some (''{\"sub\":\"jos'' @ [CHR 0x5C] @ ''u00e9@b.c\",\"name\":\"'' @ [CHR 0x5C] @ ''ud83d'' @ [CHR 0x5C] @ ''ude00\",\"tier\":\"commercial\",\"iss\":\"2024-01-01\",\"exp\":\"2024-12-31\"}'')
   \<and> list_all (\<lambda>b. (of_char b :: nat) < 128)
       (''{\"sub\":\"jos'' @ [CHR 0x5C] @ ''u00e9@b.c\",\"name\":\"'' @ [CHR 0x5C] @ ''ud83d'' @ [CHR 0x5C] @ ''ude00\",\"tier\":\"commercial\",\"iss\":\"2024-01-01\",\"exp\":\"2024-12-31\"}'')
   \<and> escape_sub (lit ''jos'' @ [233] @ lit ''@b.c'')
       = lit ''jos'' @ [92, 117, 48, 48, 101, 57] @ lit ''@b.c''
   \<and> escape_sub [0x1F600] = [92, 117, 100, 56, 51, 100, 92, 117, 100, 101, 48, 48]"
proof -
  let ?tok = "lit ''FINCH-eyJzdWIiOiJqb3NcdTAwZTlAYi5jIiwibmFtZSI6Ilx1ZDgzZFx1ZGUwMCIsInRpZXIiOiJjb21tZXJjaWFsIiwiaXNzIjoiMjAyNC0wMS0wMSIsImV4cCI6IjIwMjQtMTItMzEifQ.AQEBAQEBAQEBAQEBAQEBAQEBAQEBAQEBAQEBAQEBAQEBAQEBAQEBAQEBAQEBAQEBAQEBAQEBAQEBAQEBAQEBAQ''"
  from payload_is_ascii [OF issue_key_example_escaped]
  have a: "\<exists>payload. token_payload ?tok = Some payload
        \<and> list_all (\<lambda>b. (of_char b :: nat) < 128) payload"
    and s: "\<And>s. escape_sub s = concat (map (\<lambda>c. escape_sub [c]) s)"
    and b: "\<And>c. 126 < c \<Longrightarrow> c < 0x10000 \<Longrightarrow> escape_sub [c] = uXXXX c"
    and c: "\<And>c. 0x10000 \<le> c \<Longrightarrow> c < 0x110000 \<Longrightarrow>
             escape_sub [c] = uXXXX (0xd800 + (c - 0x10000) div 1024)
                              @ uXXXX (0xdc00 + (c - 0x10000) mod 1024)"
    by blast+
  from a have l: "list_all (\<lambda>b. (of_char b :: nat) < 128)
       (''{\"sub\":\"jos'' @ [CHR 0x5C] @ ''u00e9@b.c\",\"name\":\"'' @ [CHR 0x5C] @ ''ud83d'' @ [CHR 0x5C] @ ''ude00\",\"tier\":\"commercial\",\"iss\":\"2024-01-01\",\"exp\":\"2024-12-31\"}'')"
    by (simp only: token_payload_example_escaped) simp
  have p: "escape_sub [c] = [c]" if "c \<in> set (lit ''jos@b.c'')" for c
    using that by (auto simp add: lit_def escape_sub_def ESCAPE_ASCII_def)
  have e1: "escape_sub [233] = [92, 117, 48, 48, 101, 57]"
    using b [of 233] by (simp add: uXXXX_def hex4_def lit_def)
  have e2: "escape_sub [0x1F600] = [92, 117, 100, 56, 51, 100, 92, 117, 100, 101, 48, 48]"
    using c [of "0x1F600"] by (simp add: uXXXX_def hex4_def lit_def)
  have e3: "escape_sub (lit ''jos'' @ [233] @ lit ''@b.c'')
       = lit ''jos'' @ [92, 117, 48, 48, 101, 57] @ lit ''@b.c''"
    by (subst s) (simp add: e1 p lit_def)
  from issue_key_example_escaped token_payload_example_escaped l e3 e2 show ?thesis
    by (intro conjI)
qed

end
